theory Spec2Isabelle
  imports Complex_Main
begin

section \<open>Python values and dictionaries\<close>

text \<open>
  Property values are Python scalars. Floats are represented by the real number they
  denote (only truthiness and equality of finite values are used, never arithmetic).
  Tuples, which only a figure's own properties carry (resolution, bounding box), are left
  out: no operation below looks into a figure property.
\<close>

datatype pyval = VNone | VBool bool | VInt int | VFloat real | VStr string

type_synonym pydict = "string \<rightharpoonup> pyval"

text \<open>Python truthiness, as tested by \<^verbatim>\<open>if v\<close>.\<close>

fun truthy :: "pyval \<Rightarrow> bool" where
  "truthy VNone = False"
| "truthy (VBool b) = b"
| "truthy (VInt i) = (i \<noteq> 0)"
| "truthy (VFloat r) = (r \<noteq> 0)"
| "truthy (VStr s) = (s \<noteq> [])"

text \<open>Python \<^verbatim>\<open>==\<close> on scalars: booleans are the integers 0 and 1, numbers compare by value.\<close>

fun num_of :: "pyval \<Rightarrow> real option" where
  "num_of (VBool b) = Some (if b then 1 else 0)"
| "num_of (VInt i) = Some (real_of_int i)"
| "num_of (VFloat r) = Some r"
| "num_of _ = None"

definition py_eq :: "pyval \<Rightarrow> pyval \<Rightarrow> bool" where
  "py_eq a b = (case (num_of a, num_of b) of
       (Some x, Some y) \<Rightarrow> x = y
     | _ \<Rightarrow> a = b)"

text \<open>\<^verbatim>\<open>d.update(e)\<close>: every key of \<open>e\<close> is written into \<open>d\<close>.\<close>

definition dict_update :: "pydict \<Rightarrow> pydict \<Rightarrow> pydict" where
  "dict_update d e = d ++ e"

section \<open>Drawing objects (\<^verbatim>\<open>pylab/_drawing.py\<close>)\<close>

text \<open>
  \<^verbatim>\<open>Drawing._updateProperties(newProps, overwrite)\<close>. With \<open>overwrite\<close> the existing
  dictionary is updated by \<open>newProps\<close>; otherwise the dictionary comprehension
  \<^verbatim>\<open>{k:v for k,v in self._properties.iteritems() if v}\<close> is written over \<open>newProps\<close>, which
  then becomes the object's dictionary.
\<close>

definition truthy_items :: "pydict \<Rightarrow> pydict" where
  "truthy_items d = (\<lambda>k. case d k of Some v \<Rightarrow> (if truthy v then Some v else None) | None \<Rightarrow> None)"

definition updateProperties :: "pydict \<Rightarrow> pydict \<Rightarrow> bool \<Rightarrow> pydict" where
  "updateProperties props newProps overwrite =
     (if overwrite then dict_update props newProps
      else dict_update newProps (truthy_items props))"

section \<open>Program state\<close>

text \<open>
  Drawing objects are compared by identity (\<^verbatim>\<open>obj in self._objects\<close>) and mutated in place, so
  they live in a heap indexed by references. Each object owns its property dictionary (no
  two objects were constructed on the same \<^verbatim>\<open>properties\<close> argument).
  \<open>dr_type\<close> is the native component type \<^verbatim>\<open>obj._dr.type\<close>, for example \<^verbatim>\<open>lucScalarField\<close>.
\<close>

type_synonym ref = nat

record drawing =
  properties :: pydict
  colourBar :: "ref option"
  parent :: "ref option"
  dr_type :: string

type_synonym heap = "ref \<Rightarrow> drawing"

text \<open>
  A FigureState as read back from the database, and the dictionary \<^verbatim>\<open>_get_state\<close> exports
  in live mode (which has no \<^verbatim>\<open>figure\<close> key: the native library files it under the name
  passed to \<^verbatim>\<open>lucDatabase_WriteState\<close>).
\<close>

record export =
  ex_properties :: pydict
  ex_views :: "pydict list"
  ex_objects :: "pydict list"

record figstate =
  st_figure :: string
  st_properties :: pydict
  st_views :: "pydict list"
  st_objects :: "pydict list"

datatype json_state = Export export | State figstate

datatype exn = TypeError | IndexError | KeyError string | ValueError | OSError

text \<open>
  The collaborators outside the repository: whether the \<^verbatim>\<open>lavavu\<close> module was imported, the
  MPI rank \<^verbatim>\<open>uw.rank()\<close>, and what the viewer answers to \<^verbatim>\<open>getFigures\<close> and \<^verbatim>\<open>getTimeSteps\<close>:
  a parsed document with the parsed time steps, a \<^verbatim>\<open>RuntimeError\<close>, time steps that
  \<^verbatim>\<open>json.loads\<close> rejects, or time steps that parse and a document that \<^verbatim>\<open>json.loads\<close> rejects.
\<close>

datatype viewer_reply =
    Figures "figstate list" "int list"
  | LavaVuError
  | MalformedSteps
  | MalformedFigures "int list"

record env =
  lavavu :: bool
  rank :: nat
  getFigures :: viewer_reply

text \<open>
  The heap together with the fields of the one \<^verbatim>\<open>Store\<close>: \<open>s_objects\<close> is \<^verbatim>\<open>self._objects\<close>,
  \<open>written\<close> lists the calls of \<^verbatim>\<open>lucDatabase_WriteState\<close> in order, \<open>backups\<close> those of
  \<^verbatim>\<open>lucDatabase_BackupDbFile\<close>.
\<close>

record world =
  heap :: heap
  s_objects :: "ref list"
  viewonly :: bool
  step :: int
  db_timeStep :: int
  db_opened :: bool
  viewer_open :: bool
  timesteps :: "int list"
  written :: "(string \<times> json_state) list"
  backups :: "string list"

definition set_parent :: "ref \<Rightarrow> ref option \<Rightarrow> heap \<Rightarrow> heap" where
  "set_parent obj p h = h(obj := (h obj)\<lparr>parent := p\<rparr>)"

definition set_prop :: "ref \<Rightarrow> string \<Rightarrow> pyval \<Rightarrow> heap \<Rightarrow> heap" where
  "set_prop obj k v h = h(obj := (h obj)\<lparr>properties := (properties (h obj))(k \<mapsto> v)\<rparr>)"

section \<open>\<^verbatim>\<open>Store._generate\<close>: merging the active objects\<close>

text \<open>
  One pass of the body of \<^verbatim>\<open>for obj in objects\<close> (lines 180 to 191): a nested colour bar is
  appended to the list being iterated and gets \<open>obj\<close> as parent, \<open>obj.parent\<close> is reset, and
  \<open>obj\<close> joins \<^verbatim>\<open>self._objects\<close> unless already there.
\<close>

definition merge_step :: "ref \<Rightarrow> ref list \<Rightarrow> world \<Rightarrow> ref list \<times> world" where
  "merge_step obj objs w =
     (let (objs1, h1) = (case colourBar (heap w obj) of
                           Some cb \<Rightarrow> (objs @ [cb], set_parent cb (Some obj) (heap w))
                         | None \<Rightarrow> (objs, heap w));
          h2 = set_parent obj None h1;
          so = (if obj \<in> set (s_objects w) then s_objects w else s_objects w @ [obj])
      in (objs1, w\<lparr>heap := h2, s_objects := so\<rparr>))"

text \<open>
  The loop itself. Python's list iterator re-reads the length at every step, so appended
  colour bars are visited too; a cyclic \<^verbatim>\<open>_colourBar\<close> chain would keep it running, which is
  the value \<open>None\<close> here.
\<close>

partial_function (option) merge_loop :: "nat \<Rightarrow> ref list \<Rightarrow> world \<Rightarrow> (ref list \<times> world) option" where
  "merge_loop i objs w =
     (if i < length objs
      then merge_loop (Suc i) (fst (merge_step (objs ! i) objs w)) (snd (merge_step (objs ! i) objs w))
      else Some (objs, w))"

section \<open>\<^verbatim>\<open>Store._generate\<close>: default names\<close>

text \<open>\<^verbatim>\<open>str(o)\<close> for a list index.\<close>

fun str_nat :: "nat \<Rightarrow> string" where
  "str_nat n = (if n < 10 then [''0123456789'' ! n]
                else str_nat (n div 10) @ [''0123456789'' ! (n mod 10)])"

declare str_nat.simps [simp del]

definition default_name :: "nat \<Rightarrow> drawing \<Rightarrow> string" where
  "default_name idx d =
     (if (case properties d ''colourbar'' of Some v \<Rightarrow> truthy v | None \<Rightarrow> False)
      then ''ColourBar_'' @ str_nat idx
      else drop 3 (dr_type d) @ ''_'' @ str_nat idx)"

definition name_step :: "nat \<Rightarrow> world \<Rightarrow> world" where
  "name_step idx w =
     (let obj = s_objects w ! idx in
      if ''name'' \<notin> dom (properties (heap w obj))
      then w\<lparr>heap := set_prop obj ''name'' (VStr (default_name idx (heap w obj))) (heap w)\<rparr>
      else w)"

definition assign_names :: "world \<Rightarrow> world" where
  "assign_names w = fold name_step [0..<length (s_objects w)] w"

section \<open>\<^verbatim>\<open>Store._generate\<close>: live mode\<close>

text \<open>
  \<^verbatim>\<open>obj.properties["visible"] = bool(obj in objects or obj.parent and obj.parent in objects)\<close>,
  where \<open>objects\<close> is the list as the merging loop left it.
\<close>

definition set_visible :: "ref list \<Rightarrow> ref \<Rightarrow> world \<Rightarrow> world" where
  "set_visible objs obj w =
     w\<lparr>heap := set_prop obj ''visible''
         (VBool (obj \<in> set objs \<or> (case parent (heap w obj) of Some p \<Rightarrow> p \<in> set objs | None \<Rightarrow> False)))
         (heap w)\<rparr>"

text \<open>\<^verbatim>\<open>Store._get_state\<close>: the dictionary that is serialised for the figure.\<close>

definition get_state :: "ref list \<Rightarrow> pydict \<Rightarrow> heap \<Rightarrow> export" where
  "get_state objs props h =
     \<lparr>ex_properties = props, ex_views = [props], ex_objects = map (\<lambda>obj. properties (h obj)) objs\<rparr>"

text \<open>
  The live branch (lines 205 to 236). The calls into the native register and renderer
  (\<^verbatim>\<open>SetProperties\<close>, \<^verbatim>\<open>Stg_ObjectList_Append\<close>, \<^verbatim>\<open>_lucDatabase_Execute\<close>, \<^verbatim>\<open>obj.render\<close>) return
  nothing to the Python side and are left out; the write step, the state written and the
  opening of the viewer are kept.
\<close>

definition generate_live :: "env \<Rightarrow> string \<Rightarrow> ref list \<Rightarrow> pydict \<Rightarrow> world \<Rightarrow> world" where
  "generate_live e figname objs props w =
     (let w1 = w\<lparr>db_timeStep := step w\<rparr>;
          w2 = fold (set_visible objs) (s_objects w1) w1;
          w3 = w2\<lparr>written := written w2 @ [(figname, Export (get_state (s_objects w2) props (heap w2)))]\<rparr>
      in if lavavu e \<and> rank e = 0 then w3\<lparr>viewer_open := True\<rparr> else w3)"

section \<open>\<^verbatim>\<open>Store._read_state\<close> and \<^verbatim>\<open>Store.save\<close>\<close>

text \<open>
  \<^verbatim>\<open>_read_state\<close> returns \<open>None\<close> without the viewer module or off rank 0. Otherwise it opens
  the database and the viewer; a \<^verbatim>\<open>RuntimeError\<close> of the viewer is caught and printed, and the
  method falls through to \<open>None\<close>; what \<^verbatim>\<open>json.loads\<close> raises is not caught. The time steps
  are parsed and stored in \<^verbatim>\<open>self.timesteps\<close> (line 302) before the document is parsed (line
  303), so a document that does not parse leaves the new time steps in the store.
\<close>

definition read_state :: "env \<Rightarrow> world \<Rightarrow> world \<times> (exn + figstate list option)" where
  "read_state e w =
     (if \<not> lavavu e \<or> rank e > 0 then (w, Inr None)
      else let w1 = w\<lparr>db_opened := True, viewer_open := True\<rparr> in
        (case getFigures e of
           Figures states ts \<Rightarrow> (w1\<lparr>timesteps := ts\<rparr>, Inr (Some states))
         | LavaVuError \<Rightarrow> (w1, Inr None)
         | MalformedSteps \<Rightarrow> (w1, Inl ValueError)
         | MalformedFigures ts \<Rightarrow> (w1\<lparr>timesteps := ts\<rparr>, Inl ValueError)))"

text \<open>\<^verbatim>\<open>str.lower\<close> on ASCII letters and \<^verbatim>\<open>str.endswith\<close>.\<close>

definition lower :: "string \<Rightarrow> string" where
  "lower s = map (\<lambda>c. let n = (of_char c :: nat) in if 65 \<le> n \<and> n \<le> 90 then char_of (n + 32) else c) s"

definition endswith :: "string \<Rightarrow> string \<Rightarrow> bool" where
  "endswith s suf = (length suf \<le> length s \<and> drop (length s - length suf) s = suf)"

text \<open>\<^verbatim>\<open>Store.save(filename)\<close>; the argument is any Python value, a non-string raises.\<close>

definition save :: "env \<Rightarrow> pyval \<Rightarrow> world \<Rightarrow> world \<times> (exn + string option)" where
  "save e filename w =
     (if rank e = 0 then
        (case filename of
           VStr f \<Rightarrow>
             (let f' = (if \<not> endswith (lower f) ''.gldb'' \<and> \<not> endswith (lower f) ''.db''
                        then f @ ''.gldb'' else f)
              in (w\<lparr>backups := backups w @ [f']\<rparr>, Inr (Some f')))
         | _ \<Rightarrow> (w, Inl TypeError))
      else (w, Inr None))"

section \<open>\<^verbatim>\<open>Store._generate\<close>: view-only reconciliation\<close>

text \<open>\<^verbatim>\<open>for state in states: if state["figure"] == figname: found = True; break\<close>\<close>

fun find_state :: "string \<Rightarrow> figstate list \<Rightarrow> figstate option" where
  "find_state figname [] = None"
| "find_state figname (s # ss) = (if st_figure s = figname then Some s else find_state figname ss)"

text \<open>\<^verbatim>\<open>if not found: state = states[-1]\<close>, which raises on an empty document.\<close>

definition locate_state :: "string \<Rightarrow> figstate list \<Rightarrow> exn + figstate" where
  "locate_state figname states =
     (case find_state figname states of
        Some s \<Rightarrow> Inr s
      | None \<Rightarrow> (if states = [] then Inl IndexError else Inr (last states)))"

definition subscript :: "pydict \<Rightarrow> string \<Rightarrow> exn + pyval" where
  "subscript d k = (case d k of Some v \<Rightarrow> Inr v | None \<Rightarrow> Inl (KeyError k))"

text \<open>
  The inner loop \<^verbatim>\<open>for obj in objects\<close> of lines 254 to 258, over the property dictionaries
  of the local objects.
\<close>

fun match_overrides :: "pydict list \<Rightarrow> pydict \<Rightarrow> exn + pydict" where
  "match_overrides [] dbobj = Inr dbobj"
| "match_overrides (p # ps) dbobj =
     (case subscript dbobj ''name'' of
        Inl x \<Rightarrow> Inl x
      | Inr n \<Rightarrow>
          (case subscript p ''name'' of
             Inl x \<Rightarrow> Inl x
           | Inr m \<Rightarrow>
               if py_eq n m
               then match_overrides ps ((dict_update dbobj p)(''visible'' \<mapsto> VBool True))
               else match_overrides ps dbobj))"

text \<open>The outer loop \<^verbatim>\<open>for dbobj in state["objects"]\<close> of lines 252 to 258.\<close>

fun hide_unmatched :: "pydict list \<Rightarrow> pydict list \<Rightarrow> exn + pydict list" where
  "hide_unmatched ps [] = Inr []"
| "hide_unmatched ps (dbobj # rest) =
     (case match_overrides ps (dbobj(''visible'' \<mapsto> VBool False)) of
        Inl x \<Rightarrow> Inl x
      | Inr d \<Rightarrow>
          (case hide_unmatched ps rest of
             Inl x \<Rightarrow> Inl x
           | Inr ds \<Rightarrow> Inr (d # ds)))"

text \<open>Lines 261 and 262: no local objects, every stored object is shown.\<close>

definition show_all :: "pydict list \<Rightarrow> pydict list" where
  "show_all ds = map (\<lambda>d. d(''visible'' \<mapsto> VBool True)) ds"

text \<open>
  Lines 240 to 269 on the parsed document: locate the state, reconcile its objects, merge
  the figure's properties into \<^verbatim>\<open>state["properties"]\<close> and \<^verbatim>\<open>state["views"][0]\<close>.
\<close>

definition reconcile :: "string \<Rightarrow> pydict list \<Rightarrow> pydict \<Rightarrow> figstate list \<Rightarrow> exn + figstate" where
  "reconcile figname ps props states =
     (case locate_state figname states of
        Inl x \<Rightarrow> Inl x
      | Inr state \<Rightarrow>
          (case (if ps \<noteq> [] then hide_unmatched ps (st_objects state)
                 else Inr (show_all (st_objects state))) of
             Inl x \<Rightarrow> Inl x
           | Inr ds \<Rightarrow>
               (case st_views state of
                  [] \<Rightarrow> Inl IndexError
                | v # vs \<Rightarrow>
                    Inr (state\<lparr>st_objects := ds,
                               st_properties := dict_update (st_properties state) props,
                               st_views := dict_update v props # vs\<rparr>))))"

text \<open>
  The view-only branch (lines 238 to 271). \<^verbatim>\<open>_read_state\<close> returning \<open>None\<close> makes
  \<^verbatim>\<open>for state in states\<close> raise a \<^verbatim>\<open>TypeError\<close>.
\<close>

definition generate_view :: "env \<Rightarrow> string \<Rightarrow> ref list \<Rightarrow> pydict \<Rightarrow> world \<Rightarrow> world \<times> (exn + unit)" where
  "generate_view e figname objs props w =
     (case read_state e w of
        (w1, Inl x) \<Rightarrow> (w1, Inl x)
      | (w1, Inr None) \<Rightarrow> (w1, Inl TypeError)
      | (w1, Inr (Some states)) \<Rightarrow>
          (case reconcile figname (map (\<lambda>obj. properties (heap w1 obj)) objs) props states of
             Inl x \<Rightarrow> (w1, Inl x)
           | Inr state \<Rightarrow> (w1\<lparr>written := written w1 @ [(figname, State state)]\<rparr>, Inr ())))"

section \<open>\<^verbatim>\<open>Store._generate\<close>\<close>

text \<open>
  The whole method: merge the active objects, name them, then write the state in live mode
  or reconcile the stored one in view-only mode. The result is \<open>None\<close> when the merging
  loop does not end, otherwise the new state with \<open>Inr ()\<close> for a normal return and
  \<open>Inl\<close> for a raised exception.
\<close>

definition generate :: "env \<Rightarrow> string \<Rightarrow> ref list \<Rightarrow> pydict \<Rightarrow> world \<Rightarrow> (world \<times> (exn + unit)) option" where
  "generate e figname objects props w =
     (case merge_loop 0 objects w of
        None \<Rightarrow> None
      | Some (objs, w1) \<Rightarrow>
          (let w2 = assign_names w1 in
           Some (if \<not> viewonly w2 then (generate_live e figname objs props w2, Inr ())
                 else generate_view e figname objs props w2)))"

section \<open>\<^verbatim>\<open>Store.__init__\<close>\<close>

text \<open>
  The store as the constructor leaves it: no objects, step 0, nothing opened or written.
  \<^verbatim>\<open>_viewonly\<close> is set when \<^verbatim>\<open>view\<close> is passed together with the name of an existing file.
\<close>

definition Store_init :: "heap \<Rightarrow> bool \<Rightarrow> world" where
  "Store_init h view = \<lparr>heap = h, s_objects = [], viewonly = view, step = 0, db_timeStep = 0,
     db_opened = False, viewer_open = False, timesteps = [], written = [], backups = []\<rparr>"

section \<open>\<^verbatim>\<open>Figure.send_command\<close>\<close>

text \<open>
  What \<^verbatim>\<open>send_command\<close> does to the outside, in order: a call of \<^verbatim>\<open>open_viewer\<close>, a request
  with the answer read from it (\<open>None\<close> when \<^verbatim>\<open>urlopen\<close> or \<^verbatim>\<open>read\<close> raises), a printed line, a
  \<^verbatim>\<open>time.sleep\<close> with its seconds.
\<close>

datatype event = OpenViewer | UrlOpen string "string option" | Print string | Sleep nat

text \<open>
  The collaborators of \<^verbatim>\<open>send_command\<close>: \<^verbatim>\<open>urllib2.quote\<close>, whether the \<open>k\<close>-th call of
  \<^verbatim>\<open>open_viewer\<close> raises (it spawns the viewer process and may save the database first), and
  what the \<open>k\<close>-th request is answered.
\<close>

record net_env = env +
  quote :: "string \<Rightarrow> string"
  open_raises :: "nat \<Rightarrow> exn option"
  url_reply :: "nat \<Rightarrow> string option"

definition n_opens :: "event list \<Rightarrow> nat" where
  "n_opens tr = length (filter (\<lambda>ev. ev = OpenViewer) tr)"

definition is_request :: "event \<Rightarrow> bool" where
  "is_request ev = (case ev of UrlOpen u r \<Rightarrow> True | _ \<Rightarrow> False)"

definition n_requests :: "event list \<Rightarrow> nat" where
  "n_requests tr = length (filter is_request tr)"

text \<open>
  \<^verbatim>\<open>send_command(cmd, retry)\<close> on the trace so far. The bare \<^verbatim>\<open>except\<close> catches whatever the
  request raises; \<^verbatim>\<open>open_viewer\<close> is called outside the \<^verbatim>\<open>try\<close>, so what it raises leaves
  the method, also from the nested call.
\<close>

function send_command :: "'a net_env_scheme \<Rightarrow> string \<Rightarrow> bool \<Rightarrow> event list \<Rightarrow> event list \<times> (exn + unit)" where
  "send_command e cmd retry tr =
     (if lavavu e \<and> rank e = 0 then
        (case open_raises e (n_opens tr) of
           Some x \<Rightarrow> (tr @ [OpenViewer], Inl x)
         | None \<Rightarrow>
             (let tr1 = tr @ [OpenViewer];
                  url = ''http://localhost:9999/command='' @ quote e cmd
              in case url_reply e (n_requests tr1) of
                   Some response \<Rightarrow> (tr1 @ [UrlOpen url (Some response)], Inr ())
                 | None \<Rightarrow>
                     (let tr2 = tr1 @ [UrlOpen url None,
                                       Print (''Send command '' @ [CHR 0x27] @ cmd @ [CHR 0x27] @ '' failed, no response'')]
                      in if retry
                         then send_command e cmd False
                                (tr2 @ [Print ''... retrying in 1s ...'', Sleep 1])
                         else (tr2 @ [Print ''... failed, skipping ...''], Inr ()))))
      else (tr, Inr ()))"
  by pat_completeness auto

termination
  by (relation "measure (\<lambda>(e, cmd, retry, tr). if retry then 1 else 0)") auto

declare send_command.simps [simp del]

section \<open>Vocabulary of the properties\<close>

text \<open>
  The constructors of \<^verbatim>\<open>_drawing.py\<close> give a colour bar no colour bar of its own
  (\<^verbatim>\<open>ColourBar(colourMap=...)\<close> leaves \<^verbatim>\<open>colourBar\<close> at its default \<open>False\<close>). On such heaps
  the merging loop ends, and the list it leaves is the one passed in followed by the
  colour bars of its members.
\<close>

definition cb_leaves :: "heap \<Rightarrow> bool" where
  "cb_leaves h = (\<forall>obj cb. colourBar (h obj) = Some cb \<longrightarrow> colourBar (h cb) = None)"

definition add_new :: "ref list \<Rightarrow> ref list \<Rightarrow> ref list" where
  "add_new xs so = fold (\<lambda>obj acc. if obj \<in> set acc then acc else acc @ [obj]) xs so"

definition colour_bars :: "heap \<Rightarrow> ref list \<Rightarrow> ref list" where
  "colour_bars h objs = List.map_filter (\<lambda>obj. colourBar (h obj)) objs"

definition clear_parents :: "ref set \<Rightarrow> heap \<Rightarrow> heap" where
  "clear_parents V h = (\<lambda>obj. if obj \<in> V then (h obj)\<lparr>parent := None\<rparr> else h obj)"

definition active :: "heap \<Rightarrow> ref list \<Rightarrow> ref list" where
  "active h objs = objs @ colour_bars h objs"

definition first_index :: "'a list \<Rightarrow> 'a \<Rightarrow> nat" where
  "first_index xs x = length (takeWhile (\<lambda>y. y \<noteq> x) xs)"

definition named :: "ref list \<Rightarrow> heap \<Rightarrow> heap" where
  "named so h = (\<lambda>obj.
     if obj \<in> set so \<and> ''name'' \<notin> dom (properties (h obj))
     then (h obj)\<lparr>properties := (properties (h obj))(''name'' \<mapsto> VStr (default_name (first_index so obj) (h obj)))\<rparr>
     else h obj)"

definition shown :: "ref list \<Rightarrow> ref list \<Rightarrow> heap \<Rightarrow> heap" where
  "shown objs so h = (\<lambda>obj.
     if obj \<in> set so
     then (h obj)\<lparr>properties := (properties (h obj))(''visible'' \<mapsto>
            VBool (obj \<in> set objs \<or> (case parent (h obj) of Some p \<Rightarrow> p \<in> set objs | None \<Rightarrow> False)))\<rparr>
     else h obj)"

text \<open>
  A sequence of \<^verbatim>\<open>_generate\<close> calls on one store, each with its figure name, objects and
  properties; a call that raises leaves the state it reached to the next one.
\<close>

fun generate_all :: "env \<Rightarrow> (string \<times> ref list \<times> pydict) list \<Rightarrow> world \<Rightarrow> world option" where
  "generate_all e [] w = Some w"
| "generate_all e ((figname, objs, props) # calls) w =
     (case generate e figname objs props w of
        None \<Rightarrow> None
      | Some (w', r) \<Rightarrow> generate_all e calls w')"

text \<open>
  The local objects whose name equals a stored name \<open>n\<close>, and what the reconciliation
  makes of one stored object: hidden when no local object has its name, otherwise updated
  by the matching ones in list order and shown.
\<close>

definition matches :: "pyval \<Rightarrow> pydict \<Rightarrow> bool" where
  "matches n p = (case p ''name'' of Some m \<Rightarrow> py_eq n m | None \<Rightarrow> False)"

definition reconciled :: "pydict list \<Rightarrow> pydict \<Rightarrow> pydict" where
  "reconciled ps d =
     (let ms = filter (matches (the (d ''name''))) ps in
      if ms = [] then d(''visible'' \<mapsto> VBool False)
      else (foldl dict_update d ms)(''visible'' \<mapsto> VBool True))"

section \<open>Example states\<close>

text \<open>
  A heap with a named mesh (10), an unnamed surface (11) and the colour bar of the surface
  (12); a live store that already holds the mesh from an earlier figure.
\<close>

definition blank :: drawing where
  "blank = \<lparr>properties = Map.empty, colourBar = None, parent = None, dr_type = ''lucDrawingObject''\<rparr>"

definition ex_heap :: heap where
  "ex_heap = (\<lambda>_. blank)
     (10 := blank\<lparr>properties := [''name'' \<mapsto> VStr ''A''], dr_type := ''lucMeshViewer''\<rparr>,
      11 := blank\<lparr>colourBar := Some 12, dr_type := ''lucScalarField''\<rparr>,
      12 := blank\<lparr>properties := [''colourbar'' \<mapsto> VInt 1]\<rparr>)"

definition ex_world :: world where
  "ex_world = (Store_init ex_heap False)\<lparr>s_objects := [10]\<rparr>"

definition ex_env :: env where
  "ex_env = \<lparr>lavavu = True, rank = 0, getFigures = LavaVuError\<rparr>"

text \<open>
  A stored document of two figures and a view-only store opened on it; the local object 20
  is named \<^verbatim>\<open>B\<close> and coloured red.
\<close>

definition ex_A :: pydict where
  "ex_A = [''name'' \<mapsto> VStr ''A'', ''visible'' \<mapsto> VBool True]"

definition ex_B :: pydict where
  "ex_B = [''name'' \<mapsto> VStr ''B'', ''visible'' \<mapsto> VBool False]"

definition ex_fig1 :: figstate where
  "ex_fig1 = \<lparr>st_figure = ''Figure_1'', st_properties = [''title'' \<mapsto> VStr ''one''],
              st_views = [[''title'' \<mapsto> VStr ''one'']], st_objects = [ex_A, ex_B]\<rparr>"

definition ex_fig2 :: figstate where
  "ex_fig2 = \<lparr>st_figure = ''Figure_2'', st_properties = [''title'' \<mapsto> VStr ''two''],
              st_views = [[''title'' \<mapsto> VStr ''two'']], st_objects = [ex_A]\<rparr>"

definition ex_view_env :: env where
  "ex_view_env = \<lparr>lavavu = True, rank = 0, getFigures = Figures [ex_fig1, ex_fig2] [0, 1]\<rparr>"

definition ex_view_heap :: heap where
  "ex_view_heap = (\<lambda>_. blank)
     (20 := blank\<lparr>properties := [''name'' \<mapsto> VStr ''B'', ''colour'' \<mapsto> VStr ''red'']\<rparr>)"

definition ex_view_world :: world where
  "ex_view_world = Store_init ex_view_heap True"

text \<open>
  A viewer that is not yet listening at the first request and answers the second, one
  that never answers, and one that never answers and cannot be started a second time.
\<close>

definition ex_net :: net_env where
  "ex_net = \<lparr>lavavu = True, rank = 0, getFigures = LavaVuError, quote = (\<lambda>s. s),
             open_raises = (\<lambda>k. None), url_reply = (\<lambda>k. if k = 0 then None else Some ''OK'')\<rparr>"

definition ex_net_down :: net_env where
  "ex_net_down = ex_net\<lparr>url_reply := (\<lambda>k. None)\<rparr>"

definition ex_net_gone :: net_env where
  "ex_net_gone = ex_net_down\<lparr>open_raises := (\<lambda>k. if k = 1 then Some OSError else None)\<rparr>"

section \<open>The loops in closed form\<close>

lemma merge_loop_leaves:
  "\<forall>obj \<in> set (drop i objs). colourBar (heap w obj) = None \<Longrightarrow>
   merge_loop i objs w = Some (objs, w\<lparr>heap := clear_parents (set (drop i objs)) (heap w),
                                    s_objects := add_new (drop i objs) (s_objects w)\<rparr>)"
proof (induction "length objs - i" arbitrary: i w)
  case 0
  then have "drop i objs = []" by simp
  then show ?case using 0
    by (subst merge_loop.simps) (simp add: clear_parents_def add_new_def)
next
  case (Suc n)
  then have lt: "i < length objs" by simp
  then have dr: "drop i objs = objs ! i # drop (Suc i) objs"
    by (simp add: Cons_nth_drop_Suc)
  have nocb: "colourBar (heap w (objs ! i)) = None"
    using Suc.prems dr by simp
  define w' where "w' = snd (merge_step (objs ! i) objs w)"
  have ms: "merge_step (objs ! i) objs w = (objs, w')"
    using nocb by (simp add: merge_step_def w'_def Let_def)
  have w': "heap w' = set_parent (objs ! i) None (heap w)"
      "s_objects w' = (if objs ! i \<in> set (s_objects w) then s_objects w else s_objects w @ [objs ! i])"
    using nocb by (simp_all add: merge_step_def w'_def Let_def)
  have "\<forall>obj \<in> set (drop (Suc i) objs). colourBar (heap w' obj) = None"
    using Suc.prems dr by (auto simp: w' set_parent_def)
  moreover have "n = length objs - Suc i" using Suc.hyps(2) by simp
  ultimately have IH: "merge_loop (Suc i) objs w' = Some (objs, w'\<lparr>heap := clear_parents (set (drop (Suc i) objs)) (heap w'),
                                    s_objects := add_new (drop (Suc i) objs) (s_objects w')\<rparr>)"
    using Suc.hyps(1) by blast
  have h: "clear_parents (set (drop (Suc i) objs)) (heap w') = clear_parents (set (drop i objs)) (heap w)"
    by (auto simp: clear_parents_def w' set_parent_def dr fun_eq_iff)
  have s: "add_new (drop (Suc i) objs) (s_objects w') = add_new (drop i objs) (s_objects w)"
    by (simp add: add_new_def dr w')
  have weq: "w'\<lparr>heap := clear_parents (set (drop i objs)) (heap w), s_objects := add_new (drop i objs) (s_objects w)\<rparr>
     = w\<lparr>heap := clear_parents (set (drop i objs)) (heap w), s_objects := add_new (drop i objs) (s_objects w)\<rparr>"
    using nocb by (simp add: w'_def merge_step_def Let_def)
  show ?case
    apply (subst merge_loop.simps)
    using lt IH by (simp add: ms h s weq)
qed

lemma colour_bars_cong:
  "(\<And>obj. colourBar (h' obj) = colourBar (h obj)) \<Longrightarrow> colour_bars h' xs = colour_bars h xs"
  by (simp add: colour_bars_def)

lemma colour_bars_Cons:
  "colour_bars h (x # xs) = (case colourBar (h x) of Some cb \<Rightarrow> cb # colour_bars h xs | None \<Rightarrow> colour_bars h xs)"
  by (simp add: colour_bars_def map_filter_simps split: option.splits)

lemma merge_loop_queue:
  "drop i objs = a @ l \<Longrightarrow> \<forall>obj \<in> set l. colourBar (heap w obj) = None \<Longrightarrow> cb_leaves (heap w) \<Longrightarrow>
   merge_loop i objs w =
     Some (objs @ colour_bars (heap w) a,
           w\<lparr>heap := clear_parents (set (a @ l @ colour_bars (heap w) a)) (heap w),
             s_objects := add_new (a @ l @ colour_bars (heap w) a) (s_objects w)\<rparr>)"
proof (induction a arbitrary: i objs w l)
  case Nil
  then show ?case using merge_loop_leaves[of i objs w]
    by (simp add: colour_bars_def map_filter_simps)
next
  case (Cons x a)
  have lt: "i < length objs" using Cons.prems(1) by (cases "i < length objs") auto
  have xi: "objs ! i = x" and dr: "drop (Suc i) objs = a @ l"
    using Cons.prems(1) lt by (simp_all add: Cons_nth_drop_Suc[symmetric])
  define objs' where "objs' = fst (merge_step x objs w)"
  define w' where "w' = snd (merge_step x objs w)"
  have unf: "merge_loop i objs w = merge_loop (Suc i) objs' w'"
    by (subst merge_loop.simps) (simp add: lt xi objs'_def w'_def)
  have so: "s_objects w' = (if x \<in> set (s_objects w) then s_objects w else s_objects w @ [x])"
    by (simp add: w'_def merge_step_def Let_def split: option.splits prod.splits)
  have cbs: "\<And>obj. colourBar (heap w' obj) = colourBar (heap w obj)"
    by (auto simp: w'_def merge_step_def Let_def set_parent_def split: option.splits prod.splits)
  have leaves': "cb_leaves (heap w')" using Cons.prems(3) by (simp add: cb_leaves_def cbs)
  show ?case
  proof (cases "colourBar (heap w x)")
    case None
    have o': "objs' = objs" using None by (simp add: objs'_def merge_step_def Let_def)
    have h': "heap w' = set_parent x None (heap w)"
      using None by (simp add: w'_def merge_step_def Let_def)
    have "merge_loop (Suc i) objs w' = Some (objs @ colour_bars (heap w') a,
           w'\<lparr>heap := clear_parents (set (a @ l @ colour_bars (heap w') a)) (heap w'),
             s_objects := add_new (a @ l @ colour_bars (heap w') a) (s_objects w')\<rparr>)"
      using Cons.IH[OF dr _ leaves'] Cons.prems(2) by (simp add: cbs)
    moreover have "colour_bars (heap w') a = colour_bars (heap w) a"
      by (rule colour_bars_cong) (rule cbs)
    moreover have "colour_bars (heap w) (x # a) = colour_bars (heap w) a"
      using None by (simp add: colour_bars_Cons)
    moreover have "clear_parents (set (a @ l @ colour_bars (heap w) a)) (heap w')
        = clear_parents (set ((x # a) @ l @ colour_bars (heap w) a)) (heap w)"
      by (auto simp: clear_parents_def h' set_parent_def fun_eq_iff)
    moreover have "add_new (a @ l @ colour_bars (heap w) a) (s_objects w')
        = add_new ((x # a) @ l @ colour_bars (heap w) a) (s_objects w)"
      by (simp add: add_new_def so)
    moreover have "\<And>H S. w'\<lparr>heap := H, s_objects := S\<rparr> = w\<lparr>heap := H, s_objects := S\<rparr>"
      by (simp add: w'_def merge_step_def Let_def split: option.splits prod.splits)
    ultimately show ?thesis using unf o' by simp
  next
    case (Some cb)
    have o': "objs' = objs @ [cb]" using Some by (simp add: objs'_def merge_step_def Let_def)
    have h': "heap w' = set_parent x None (set_parent cb (Some x) (heap w))"
      using Some by (simp add: w'_def merge_step_def Let_def)
    have cbleaf: "colourBar (heap w cb) = None" using Cons.prems(3) Some by (auto simp: cb_leaves_def)
    have dr': "drop (Suc i) (objs @ [cb]) = a @ (l @ [cb])" using dr lt by simp
    have "merge_loop (Suc i) (objs @ [cb]) w' = Some ((objs @ [cb]) @ colour_bars (heap w') a,
           w'\<lparr>heap := clear_parents (set (a @ (l @ [cb]) @ colour_bars (heap w') a)) (heap w'),
             s_objects := add_new (a @ (l @ [cb]) @ colour_bars (heap w') a) (s_objects w')\<rparr>)"
      using Cons.IH[OF dr' _ leaves'] Cons.prems(2) cbleaf by (simp add: cbs)
    moreover have "colour_bars (heap w') a = colour_bars (heap w) a"
      by (rule colour_bars_cong) (rule cbs)
    moreover have "colour_bars (heap w) (x # a) = cb # colour_bars (heap w) a"
      using Some by (simp add: colour_bars_Cons)
    moreover have "clear_parents (set (a @ (l @ [cb]) @ colour_bars (heap w) a)) (heap w')
        = clear_parents (set ((x # a) @ l @ cb # colour_bars (heap w) a)) (heap w)"
      by (auto simp: clear_parents_def h' set_parent_def fun_eq_iff)
    moreover have "add_new (a @ (l @ [cb]) @ colour_bars (heap w) a) (s_objects w')
        = add_new ((x # a) @ l @ cb # colour_bars (heap w) a) (s_objects w)"
      by (simp add: add_new_def so)
    moreover have "\<And>H S. w'\<lparr>heap := H, s_objects := S\<rparr> = w\<lparr>heap := H, s_objects := S\<rparr>"
      by (simp add: w'_def merge_step_def Let_def split: option.splits prod.splits)
    ultimately show ?thesis using unf o' by simp
  qed
qed

lemma merge_loop_closed:
  "cb_leaves (heap w) \<Longrightarrow>
   merge_loop 0 objs w =
     Some (active (heap w) objs,
           w\<lparr>heap := clear_parents (set (active (heap w) objs)) (heap w),
             s_objects := add_new (active (heap w) objs) (s_objects w)\<rparr>)"
  using merge_loop_queue[of 0 objs objs "[]" w] by (simp add: active_def)

lemma first_index_snoc:
  "first_index (xs @ [x]) y = (if y \<in> set xs then first_index xs y else if y = x then length xs else Suc (length xs))"
  by (induction xs) (auto simp: first_index_def)

lemma first_index_nth: "distinct xs \<Longrightarrow> i < length xs \<Longrightarrow> first_index xs (xs ! i) = i"
proof (induction xs arbitrary: i)
  case Nil then show ?case by simp
next
  case (Cons a xs)
  then show ?case by (cases i) (auto simp: first_index_def)
qed

lemma default_name_named [simp]:
  "default_name i (d\<lparr>properties := (properties d)(''name'' \<mapsto> v)\<rparr>) = default_name i d"
  by (simp add: default_name_def)

lemma fold_name_step:
  "n \<le> length (s_objects w) \<Longrightarrow>
   fold name_step [0..<n] w = w\<lparr>heap := named (take n (s_objects w)) (heap w)\<rparr>"
proof (induction n)
  case 0
  then show ?case by (simp add: named_def)
next
  case (Suc n)
  let ?so = "s_objects w"
  let ?w = "w\<lparr>heap := named (take n ?so) (heap w)\<rparr>"
  have IH: "fold name_step [0..<n] w = ?w" using Suc by simp
  have tk: "take (Suc n) ?so = take n ?so @ [?so ! n]" using Suc.prems by (simp add: take_Suc_conv_app_nth)
  have "name_step n ?w = w\<lparr>heap := named (take (Suc n) ?so) (heap w)\<rparr>"
  proof -
    have "heap (name_step n ?w) = named (take (Suc n) ?so) (heap w)"
      unfolding tk
      using Suc.prems
      by (intro ext) (auto simp: name_step_def Let_def named_def set_prop_def first_index_snoc min_def)
    moreover have "name_step n ?w = ?w\<lparr>heap := heap (name_step n ?w)\<rparr>"
      by (simp add: name_step_def Let_def)
    ultimately show ?thesis by simp
  qed
  then show ?case using IH by simp
qed

lemma assign_names_eq: "assign_names w = w\<lparr>heap := named (s_objects w) (heap w)\<rparr>"
  by (simp add: assign_names_def fold_name_step)

lemma fold_set_visible:
  "fold (set_visible objs) xs w = w\<lparr>heap := shown objs xs (heap w)\<rparr>"
proof (induction xs arbitrary: w)
  case Nil
  then show ?case by (simp add: shown_def)
next
  case (Cons x xs)
  have "shown objs xs (heap (set_visible objs x w)) = shown objs (x # xs) (heap w)"
    by (rule ext) (auto simp: shown_def set_visible_def set_prop_def)
  moreover have "\<And>H. (set_visible objs x w)\<lparr>heap := H\<rparr> = w\<lparr>heap := H\<rparr>"
    by (simp add: set_visible_def)
  ultimately show ?case using Cons.IH[of "set_visible objs x w"] by simp
qed

lemma generate_closed:
  assumes "cb_leaves (heap w)"
  shows "generate e figname objs props w =
     Some (let A = active (heap w) objs;
               so = add_new A (s_objects w);
               w2 = w\<lparr>s_objects := so, heap := named so (clear_parents (set A) (heap w))\<rparr>
           in if \<not> viewonly w then (generate_live e figname A props w2, Inr ())
              else generate_view e figname A props w2)"
  by (simp add: generate_def merge_loop_closed[OF assms] assign_names_eq Let_def)

lemma generate_live_closed:
  "generate_live e figname A props w =
     w\<lparr>db_timeStep := step w,
       heap := shown A (s_objects w) (heap w),
       written := written w @ [(figname, Export (get_state (s_objects w) props (shown A (s_objects w) (heap w))))],
       viewer_open := (viewer_open w \<or> lavavu e \<and> rank e = 0)\<rparr>"
  by (cases "lavavu e \<and> rank e = 0") (auto simp add: generate_live_def fold_set_visible Let_def)

section \<open>The object list and the active list\<close>

lemma set_add_new: "set (add_new xs so) = set so \<union> set xs"
  unfolding add_new_def by (induction xs arbitrary: so) auto

lemma distinct_add_new: "distinct so \<Longrightarrow> distinct (add_new xs so)"
  unfolding add_new_def by (induction xs arbitrary: so) auto

lemma add_new_prefix: "\<exists>ys. add_new xs so = so @ ys"
  unfolding add_new_def by (induction xs arbitrary: so) (auto, metis append.assoc)

lemma add_new_absorb: "set xs \<subseteq> set so \<Longrightarrow> add_new xs so = so"
  unfolding add_new_def by (induction xs arbitrary: so) auto

lemma set_colour_bars: "set (colour_bars h objs) = {cb. \<exists>p \<in> set objs. colourBar (h p) = Some cb}"
  by (induction objs) (auto simp: colour_bars_Cons colour_bars_def map_filter_simps split: option.splits)

lemma set_active: "set (active h objs) = set objs \<union> {cb. \<exists>p \<in> set objs. colourBar (h p) = Some cb}"
  by (simp add: active_def set_colour_bars)

lemma generate_view_heap: "heap (fst (generate_view e figname A props w)) = heap w"
  "s_objects (fst (generate_view e figname A props w)) = s_objects w"
  by (auto simp: generate_view_def read_state_def Let_def split: prod.splits sum.splits option.splits viewer_reply.splits)

lemma generate_live_result:
  assumes "cb_leaves (heap w)" and "\<not> viewonly w"
  shows "generate e figname objs props w =
     Some (w\<lparr>s_objects := add_new (active (heap w) objs) (s_objects w),
             db_timeStep := step w,
             heap := shown (active (heap w) objs) (add_new (active (heap w) objs) (s_objects w))
                       (named (add_new (active (heap w) objs) (s_objects w))
                          (clear_parents (set (active (heap w) objs)) (heap w))),
             written := written w @
               [(figname, Export (get_state (add_new (active (heap w) objs) (s_objects w)) props
                   (shown (active (heap w) objs) (add_new (active (heap w) objs) (s_objects w))
                       (named (add_new (active (heap w) objs) (s_objects w))
                          (clear_parents (set (active (heap w) objs)) (heap w))))))],
             viewer_open := (viewer_open w \<or> lavavu e \<and> rank e = 0)\<rparr>, Inr ())"
  using assms(2) by (simp add: generate_closed[OF assms(1)] Let_def generate_live_closed)

lemma parent_named [simp]: "parent (named so h obj) = parent (h obj)"
  by (simp add: named_def)

lemma parent_shown [simp]: "parent (shown A so h obj) = parent (h obj)"
  by (simp add: shown_def)

lemma colourBar_named [simp]: "colourBar (named so h obj) = colourBar (h obj)"
  by (simp add: named_def)

lemma colourBar_shown [simp]: "colourBar (shown A so h obj) = colourBar (h obj)"
  by (simp add: shown_def)

lemma colourBar_clear_parents [simp]: "colourBar (clear_parents V h obj) = colourBar (h obj)"
  by (simp add: clear_parents_def)

lemma visible_shown:
  "obj \<in> set so \<Longrightarrow> properties (shown A so h obj) ''visible'' =
     Some (VBool (obj \<in> set A \<or> (case parent (h obj) of Some p \<Rightarrow> p \<in> set A | None \<Rightarrow> False)))"
  by (simp add: shown_def)

lemma cb_leaves_ex_heap: "cb_leaves ex_heap"
  by (simp add: cb_leaves_def ex_heap_def blank_def)

lemma active_ex: "active ex_heap [11] = [11, 12]"
  by (simp add: active_def colour_bars_def map_filter_simps ex_heap_def blank_def)

lemma cb_leaves_cong:
  "(\<And>obj. colourBar (h' obj) = colourBar (h obj)) \<Longrightarrow> cb_leaves h' = cb_leaves h"
  by (simp add: cb_leaves_def)

lemma active_cong:
  "(\<And>obj. colourBar (h' obj) = colourBar (h obj)) \<Longrightarrow> active h' objs = active h objs"
  using colour_bars_cong[of h' h objs] by (simp add: active_def)

lemma active_subset_add_new: "set (active h objs) \<subseteq> set (add_new (active h objs) so)"
  by (simp add: set_add_new)

lemma parent_None_id: "parent d = None \<Longrightarrow> d\<lparr>parent := None\<rparr> = d"
  by simp

lemma named_id:
  "obj \<notin> set so \<or> ''name'' \<in> dom (properties (H obj)) \<Longrightarrow> named so H obj = H obj"
  by (auto simp: named_def)

lemma shown_fix:
  "H obj = shown A so G obj \<Longrightarrow> shown A so H obj = shown A so G obj"
  by (simp add: shown_def)

lemma heap_idem:
  assumes "set A \<subseteq> set so"
  shows "shown A so (named so (clear_parents (set A) (shown A so (named so (clear_parents (set A) h)))))
       = shown A so (named so (clear_parents (set A) h))"
proof (rule ext)
  fix obj
  let ?G = "named so (clear_parents (set A) h)"
  let ?h1 = "shown A so ?G"
  have pA: "obj \<in> set A \<Longrightarrow> parent (?h1 obj) = None"
    by (simp add: clear_parents_def)
  have C: "clear_parents (set A) ?h1 obj = ?h1 obj"
    using pA parent_None_id[of "?h1 obj"] by (simp add: clear_parents_def)
  have nm: "obj \<in> set so \<Longrightarrow> ''name'' \<in> dom (properties (?h1 obj))"
    by (auto simp: shown_def named_def)
  have "named so (clear_parents (set A) ?h1) obj = clear_parents (set A) ?h1 obj"
    by (rule named_id) (use nm C in auto)
  then have "named so (clear_parents (set A) ?h1) obj = ?h1 obj" using C by simp
  then show "shown A so (named so (clear_parents (set A) ?h1)) obj = ?h1 obj"
    by (rule shown_fix)
qed

section \<open>What one call keeps\<close>

lemma generate_view_written:
  "written (fst (generate_view e figname A props w)) = written w
   \<or> (\<exists>st. written (fst (generate_view e figname A props w)) = written w @ [(figname, State st)])"
  by (auto simp: generate_view_def read_state_def Let_def split: prod.splits sum.splits option.splits viewer_reply.splits)

lemma name_kept:
  "properties (h obj) ''name'' = Some v \<Longrightarrow>
   properties (shown A so (named so (clear_parents V h)) obj) ''name'' = Some v"
  "properties (h obj) ''name'' = Some v \<Longrightarrow>
   properties (named so (clear_parents V h) obj) ''name'' = Some v"
  by (auto simp: shown_def named_def clear_parents_def)

lemma generate_step:
  assumes "cb_leaves (heap w)"
  shows "\<exists>w' r. generate e figname objs props w = Some (w', r)
          \<and> cb_leaves (heap w')
          \<and> (\<forall>obj v. properties (heap w obj) ''name'' = Some v \<longrightarrow> properties (heap w' obj) ''name'' = Some v)
          \<and> (\<exists>ys. s_objects w' = s_objects w @ ys)
          \<and> (written w' = written w
              \<or> (\<exists>js. written w' = written w @ [(figname, js)]
                   \<and> (\<forall>x. js = Export x \<longrightarrow> ex_objects x = map (\<lambda>obj. properties (heap w' obj)) (s_objects w'))))"
proof (cases "viewonly w")
  case False
  let ?A = "active (heap w) objs"
  let ?so = "add_new ?A (s_objects w)"
  let ?h1 = "shown ?A ?so (named ?so (clear_parents (set ?A) (heap w)))"
  have "cb_leaves ?h1" using assms cb_leaves_cong[of ?h1 "heap w"] by simp
  moreover have "\<exists>ys. ?so = s_objects w @ ys" by (rule add_new_prefix)
  ultimately show ?thesis
    unfolding generate_live_result[OF assms False]
    by (simp add: name_kept get_state_def)
next
  case True
  let ?A = "active (heap w) objs"
  let ?so = "add_new ?A (s_objects w)"
  let ?h = "named ?so (clear_parents (set ?A) (heap w))"
  let ?w2 = "w\<lparr>s_objects := ?so, heap := ?h\<rparr>"
  let ?r = "generate_view e figname ?A props ?w2"
  have g: "generate e figname objs props w = Some (fst ?r, snd ?r)"
    using True by (simp add: generate_closed[OF assms] Let_def)
  have "cb_leaves ?h" using assms cb_leaves_cong[of ?h "heap w"] by simp
  moreover have "\<exists>ys. ?so = s_objects w @ ys" by (rule add_new_prefix)
  moreover have "written (fst ?r) = written w \<or> (\<exists>st. written (fst ?r) = written w @ [(figname, State st)])"
    using generate_view_written[of e figname ?A props ?w2] by simp
  ultimately show ?thesis
    unfolding g
    by (intro exI[of _ "fst ?r"] exI[of _ "snd ?r"]) (auto simp add: generate_view_heap name_kept)
qed

lemma generate_all_stable:
  assumes "cb_leaves (heap w)" and "properties (heap w obj) ''name'' = Some v"
  shows "\<exists>w' ys zs. generate_all e calls w = Some w'
          \<and> cb_leaves (heap w')
          \<and> properties (heap w' obj) ''name'' = Some v
          \<and> s_objects w' = s_objects w @ ys
          \<and> written w' = written w @ zs
          \<and> (\<forall>(figname, js) \<in> set zs. \<forall>x i. js = Export x \<longrightarrow> i < length (ex_objects x) \<longrightarrow>
                 s_objects w' ! i = obj \<longrightarrow> (ex_objects x ! i) ''name'' = Some v)"
  using assms
proof (induction calls arbitrary: w)
  case Nil
  then show ?case by simp
next
  case (Cons c calls)
  obtain figname objs props where c: "c = (figname, objs, props)" by (cases c) auto
  obtain w1 r ys1 where g: "generate e figname objs props w = Some (w1, r)"
    and l1: "cb_leaves (heap w1)"
    and n1: "properties (heap w1 obj) ''name'' = Some v"
    and s1: "s_objects w1 = s_objects w @ ys1"
    and wr1: "written w1 = written w
              \<or> (\<exists>js. written w1 = written w @ [(figname, js)]
                   \<and> (\<forall>x. js = Export x \<longrightarrow> ex_objects x = map (\<lambda>obj. properties (heap w1 obj)) (s_objects w1)))"
    using generate_step[OF Cons.prems(1), of e figname objs props] Cons.prems(2) by blast
  obtain w' ys zs where ga: "generate_all e calls w1 = Some w'"
    and l': "cb_leaves (heap w')"
    and n': "properties (heap w' obj) ''name'' = Some v"
    and s': "s_objects w' = s_objects w1 @ ys"
    and wr': "written w' = written w1 @ zs"
    and ex': "\<forall>(figname, js) \<in> set zs. \<forall>x i. js = Export x \<longrightarrow> i < length (ex_objects x) \<longrightarrow>
                 s_objects w' ! i = obj \<longrightarrow> (ex_objects x ! i) ''name'' = Some v"
    using Cons.IH[OF l1 n1] by blast
  have first: "(ex_objects x ! i) ''name'' = Some v"
    if "ex_objects x = map (\<lambda>obj. properties (heap w1 obj)) (s_objects w1)"
      and "i < length (ex_objects x)" and "s_objects w' ! i = obj" for x i
  proof -
    have "i < length (s_objects w1)" using that by simp
    then have "s_objects w1 ! i = obj" using that(3) s' by (simp add: nth_append)
    then show ?thesis using that n1 by simp
  qed
  from wr1 show ?case
  proof
    assume "written w1 = written w"
    then show ?thesis using g ga l' n' s' s1 wr' ex' c
      by (intro exI[of _ w'] exI[of _ "ys1 @ ys"] exI[of _ zs]) simp
  next
    assume "\<exists>js. written w1 = written w @ [(figname, js)]
                   \<and> (\<forall>x. js = Export x \<longrightarrow> ex_objects x = map (\<lambda>obj. properties (heap w1 obj)) (s_objects w1))"
    then obtain js where js: "written w1 = written w @ [(figname, js)]"
      and jx: "\<forall>x. js = Export x \<longrightarrow> ex_objects x = map (\<lambda>obj. properties (heap w1 obj)) (s_objects w1)"
      by blast
    have hd: "\<forall>x i. js = Export x \<longrightarrow> i < length (ex_objects x) \<longrightarrow>
                 s_objects w' ! i = obj \<longrightarrow> (ex_objects x ! i) ''name'' = Some v"
      using jx first by blast
    have "\<forall>(figname, js) \<in> set ((figname, js) # zs). \<forall>x i. js = Export x \<longrightarrow> i < length (ex_objects x) \<longrightarrow>
                 s_objects w' ! i = obj \<longrightarrow> (ex_objects x ! i) ''name'' = Some v"
      using ex' hd by (simp only: list.set ball_simps prod.case)
    then show ?thesis using g ga l' n' s' s1 wr' js c
      by (intro exI[of _ w'] exI[of _ "ys1 @ ys"] exI[of _ "(figname, js) # zs"]) simp
  qed
qed

section \<open>The reconciliation in closed form\<close>

lemma py_eq_refl: "py_eq a a"
  by (cases a) (auto simp: py_eq_def)

lemma py_eq_sym: "py_eq a b \<Longrightarrow> py_eq b a"
  by (cases a; cases b) (auto simp: py_eq_def)

lemma py_eq_trans: "py_eq a b \<Longrightarrow> py_eq b c \<Longrightarrow> py_eq a c"
  by (cases a; cases b; cases c) (auto simp: py_eq_def split: if_splits)

lemma matches_cong: "py_eq n n' \<Longrightarrow> matches n p = matches n' p"
  unfolding matches_def
  by (cases "p ''name''") (auto intro: py_eq_trans py_eq_sym)

lemma foldl_update_agree:
  "(\<And>k'. k' \<noteq> k \<Longrightarrow> m1 k' = m2 k') \<Longrightarrow>
   (foldl dict_update m1 ms)(k \<mapsto> v) = (foldl dict_update m2 ms)(k \<mapsto> v)"
proof (induction ms arbitrary: m1 m2)
  case Nil
  then show ?case by (auto simp: fun_eq_iff)
next
  case (Cons q ms)
  have "\<And>k'. k' \<noteq> k \<Longrightarrow> dict_update m1 q k' = dict_update m2 q k'"
    using Cons.prems by (simp add: dict_update_def map_add_def split: option.splits)
  then show ?case using Cons.IH[of "dict_update m1 q" "dict_update m2 q"] by simp
qed

lemma match_overrides_eq:
  assumes "cur ''name'' = Some n" and "\<forall>p \<in> set ps. ''name'' \<in> dom p"
  shows "match_overrides ps cur =
     Inr (if filter (matches n) ps = [] then cur
          else (foldl dict_update cur (filter (matches n) ps))(''visible'' \<mapsto> VBool True))"
  using assms
proof (induction ps arbitrary: cur n)
  case Nil
  then show ?case by simp
next
  case (Cons p ps)
  obtain m where m: "p ''name'' = Some m" using Cons.prems(2) by auto
  show ?case
  proof (cases "py_eq n m")
    case True
    let ?cur = "(dict_update cur p)(''visible'' \<mapsto> VBool True)"
    have nm: "?cur ''name'' = Some m" using m by (simp add: dict_update_def)
    have mc: "\<And>q. matches m q = matches n q" using matches_cong[OF True] by simp
    have IH: "match_overrides ps ?cur =
       Inr (if filter (matches n) ps = [] then ?cur
            else (foldl dict_update ?cur (filter (matches n) ps))(''visible'' \<mapsto> VBool True))"
    proof -
      have "\<forall>p \<in> set ps. ''name'' \<in> dom p" using Cons.prems(2) by simp
      moreover have "matches m = matches n" using mc by (intro ext)
      ultimately show ?thesis using Cons.IH[of ?cur m, OF nm] by metis
    qed
    have ag: "(foldl dict_update ?cur ms)(''visible'' \<mapsto> VBool True)
            = (foldl dict_update (dict_update cur p) ms)(''visible'' \<mapsto> VBool True)" for ms
      by (rule foldl_update_agree) simp
    have mp: "matches n p" using True m by (simp add: matches_def)
    have step: "match_overrides (p # ps) cur = match_overrides ps ?cur"
      using True m Cons.prems(1) by (simp add: subscript_def)
    have flt: "filter (matches n) (p # ps) = p # filter (matches n) ps" using mp by simp
    show ?thesis
    proof (cases "filter (matches n) ps = []")
      case True
      then show ?thesis unfolding step IH flt by (simp add: fun_upd_def)
    next
      case False
      then show ?thesis unfolding step IH flt using ag[of "filter (matches n) ps"] by (simp add: fun_upd_def)
    qed
  next
    case False
    have mp: "\<not> matches n p" using False m by (simp add: matches_def)
    show ?thesis
      using False m Cons.prems mp Cons.IH[of cur n]
      by (simp add: subscript_def)
  qed
qed

lemma hide_unmatched_eq:
  assumes "\<forall>d \<in> set ds. ''name'' \<in> dom d" and "\<forall>p \<in> set ps. ''name'' \<in> dom p"
  shows "hide_unmatched ps ds = Inr (map (reconciled ps) ds)"
  using assms(1)
proof (induction ds)
  case Nil
  then show ?case by simp
next
  case (Cons d ds)
  obtain n where n: "d ''name'' = Some n" using Cons.prems by auto
  let ?d = "d(''visible'' \<mapsto> VBool False)"
  have "?d ''name'' = Some n" using n by simp
  then have mo: "match_overrides ps ?d =
     Inr (if filter (matches n) ps = [] then ?d
          else (foldl dict_update ?d (filter (matches n) ps))(''visible'' \<mapsto> VBool True))"
    using match_overrides_eq[of ?d n ps] assms(2) by blast
  have "(foldl dict_update ?d ms)(''visible'' \<mapsto> VBool True)
      = (foldl dict_update d ms)(''visible'' \<mapsto> VBool True)" for ms
    by (rule foldl_update_agree) simp
  then have "match_overrides ps ?d = Inr (reconciled ps d)"
    using mo n by (simp add: reconciled_def Let_def)
  then show ?case using Cons by simp
qed

lemma find_state_find: "find_state figname states = find (\<lambda>s. st_figure s = figname) states"
  by (induction states) auto

lemma locate_state_eq:
  "states \<noteq> [] \<Longrightarrow>
   locate_state figname states =
     Inr (case find (\<lambda>s. st_figure s = figname) states of Some s \<Rightarrow> s | None \<Rightarrow> last states)"
  by (simp add: locate_state_def find_state_find split: option.splits)

lemma locate_state_nonempty: "locate_state figname states = Inr chosen \<Longrightarrow> states \<noteq> []"
  by (auto simp: locate_state_def split: option.splits if_splits)

lemma match_overrides_error: "match_overrides ps d = Inl x \<Longrightarrow> x = KeyError ''name''"
  by (induction ps arbitrary: d) (auto simp: subscript_def split: option.splits if_splits)

lemma hide_unmatched_error: "hide_unmatched ps ds = Inl x \<Longrightarrow> x = KeyError ''name''"
  by (induction ds) (auto split: sum.splits dest: match_overrides_error)

lemma hide_unmatched_length: "hide_unmatched ps ds = Inr ds' \<Longrightarrow> length ds' = length ds"
  by (induction ds arbitrary: ds') (auto split: sum.splits)

lemma named_has_name: "obj \<in> set so \<Longrightarrow> ''name'' \<in> dom (properties (named so h obj))"
  by (auto simp: named_def)

lemma generate_view_result:
  assumes "viewonly w" and "cb_leaves (heap w)" and "lavavu e" and "rank e = 0"
    and "getFigures e = Figures states ts"
  shows "generate e figname objs props w =
     Some (case reconcile figname
                  (map (\<lambda>obj. properties (named (add_new (active (heap w) objs) (s_objects w))
                                             (clear_parents (set (active (heap w) objs)) (heap w)) obj))
                       (active (heap w) objs))
                  props states of
             Inl x \<Rightarrow>
               (w\<lparr>s_objects := add_new (active (heap w) objs) (s_objects w),
                   heap := named (add_new (active (heap w) objs) (s_objects w))
                             (clear_parents (set (active (heap w) objs)) (heap w)),
                   db_opened := True, viewer_open := True, timesteps := ts\<rparr>, Inl x)
           | Inr st \<Rightarrow>
               (w\<lparr>s_objects := add_new (active (heap w) objs) (s_objects w),
                   heap := named (add_new (active (heap w) objs) (s_objects w))
                             (clear_parents (set (active (heap w) objs)) (heap w)),
                   db_opened := True, viewer_open := True, timesteps := ts,
                   written := written w @ [(figname, State st)]\<rparr>, Inr ()))"
  using assms(1,3,4,5)
  by (simp add: generate_closed[OF assms(2)] Let_def generate_view_def read_state_def split: sum.splits)

lemma reconcile_result:
  assumes "locate_state figname states = Inr chosen" and "st_views chosen = v # vs"
    and "\<forall>d \<in> set (st_objects chosen). ''name'' \<in> dom d" and "\<forall>p \<in> set ps. ''name'' \<in> dom p"
  shows "reconcile figname ps props states =
     Inr (chosen\<lparr>st_objects := (if ps \<noteq> [] then map (reconciled ps) (st_objects chosen)
                                 else show_all (st_objects chosen)),
                 st_properties := dict_update (st_properties chosen) props,
                 st_views := dict_update v props # vs\<rparr>)"
  using assms(1,2) hide_unmatched_eq[OF assms(3,4)]
  by (simp add: reconcile_def)

lemma reconcile_cases:
  assumes "locate_state figname states = Inr chosen"
  shows "(\<exists>ds. reconcile figname ps props states =
            Inr (chosen\<lparr>st_objects := ds,
                        st_properties := dict_update (st_properties chosen) props,
                        st_views := dict_update (hd (st_views chosen)) props # tl (st_views chosen)\<rparr>)
            \<and> length ds = length (st_objects chosen))
         \<or> reconcile figname ps props states = Inl (KeyError ''name'')
         \<or> (reconcile figname ps props states = Inl IndexError \<and> st_views chosen = [])"
proof (cases "if ps \<noteq> [] then hide_unmatched ps (st_objects chosen) else Inr (show_all (st_objects chosen))")
  case (Inl x)
  then have "x = KeyError ''name''" by (auto split: if_splits dest: hide_unmatched_error)
  then show ?thesis using assms Inl by (simp add: reconcile_def)
next
  case (Inr ds)
  then have "length ds = length (st_objects chosen)"
    by (auto split: if_splits dest: hide_unmatched_length simp: show_all_def)
  then show ?thesis using assms Inr
    by (cases "st_views chosen") (auto simp add: reconcile_def)
qed

lemma cb_leaves_ex_view_heap: "cb_leaves ex_view_heap"
  by (simp add: cb_leaves_def ex_view_heap_def blank_def)

lemma active_ex_view: "active ex_view_heap [20] = [20]"
  by (simp add: active_def colour_bars_def map_filter_simps ex_view_heap_def blank_def)

lemma ex_view_world_simps:
  "viewonly ex_view_world" "heap ex_view_world = ex_view_heap" "s_objects ex_view_world = []"
  "written ex_view_world = []"
  by (simp_all add: ex_view_world_def Store_init_def)

lemma ex_view_env_simps:
  "lavavu ex_view_env" "rank ex_view_env = 0" "getFigures ex_view_env = Figures [ex_fig1, ex_fig2] [0, 1]"
  by (simp_all add: ex_view_env_def)

lemma ex_view_overrides:
  "properties (named [20] (clear_parents {20} ex_view_heap) 20) = [''name'' \<mapsto> VStr ''B'', ''colour'' \<mapsto> VStr ''red'']"
  by (simp add: named_def clear_parents_def ex_view_heap_def blank_def)

section \<open>Events of a trace\<close>

lemma n_opens_simps [simp]:
  "n_opens (tr @ tr') = n_opens tr + n_opens tr'"
  "n_opens (OpenViewer # tr) = Suc (n_opens tr)"
  "n_opens (UrlOpen u r # tr) = n_opens tr"
  "n_opens (Print s # tr) = n_opens tr"
  "n_opens (Sleep n # tr) = n_opens tr"
  "n_opens [] = 0"
  by (simp_all add: n_opens_def)

lemma n_requests_simps [simp]:
  "n_requests (tr @ tr') = n_requests tr + n_requests tr'"
  "n_requests (OpenViewer # tr) = n_requests tr"
  "n_requests (UrlOpen u r # tr) = Suc (n_requests tr)"
  "n_requests (Print s # tr) = n_requests tr"
  "n_requests (Sleep n # tr) = n_requests tr"
  "n_requests [] = 0"
  by (simp_all add: n_requests_def is_request_def)

lemma send_command_once:
  assumes "lavavu e" and "rank e = 0"
  shows "send_command e cmd False tr =
     (case open_raises e (n_opens tr) of
        Some x \<Rightarrow> (tr @ [OpenViewer], Inl x)
      | None \<Rightarrow>
          (case url_reply e (n_requests tr) of
             Some response \<Rightarrow>
               (tr @ [OpenViewer, UrlOpen (''http://localhost:9999/command='' @ quote e cmd) (Some response)], Inr ())
           | None \<Rightarrow>
               (tr @ [OpenViewer, UrlOpen (''http://localhost:9999/command='' @ quote e cmd) None,
                      Print (''Send command '' @ [CHR 0x27] @ cmd @ [CHR 0x27] @ '' failed, no response''),
                      Print ''... failed, skipping ...''], Inr ())))"
  using assms by (subst send_command.simps) (simp add: Let_def split: option.splits)

lemma named_Nil [simp]: "named [] h = h"
  by (simp add: named_def)

lemma clear_parents_empty [simp]: "clear_parents {} h = h"
  by (simp add: clear_parents_def)

lemma generate_view_no_document:
  assumes "viewonly w" and "cb_leaves (heap w)" and "\<not> lavavu e \<or> rank e \<noteq> 0"
  shows "generate e figname objs props w =
     Some (w\<lparr>s_objects := add_new (active (heap w) objs) (s_objects w),
             heap := named (add_new (active (heap w) objs) (s_objects w))
                       (clear_parents (set (active (heap w) objs)) (heap w))\<rparr>, Inl TypeError)"
  using assms(1,3)
  by (auto simp add: generate_closed[OF assms(2)] Let_def generate_view_def read_state_def)

section \<open>C1: reconciling the stored objects\<close>

text \<open>
  Claim C1. In view-only mode, with the viewer answering, a located state that has a view
  and whose objects all have a name, \<^verbatim>\<open>_generate\<close> returns normally and writes a state with
  as many objects as the located one. With no local object, each stored object is written
  with \<^verbatim>\<open>visible\<close> true and otherwise unchanged. With local objects, a stored object whose
  name no local object has is written with \<^verbatim>\<open>visible\<close> false and otherwise unchanged; one
  whose name some local objects have is updated by the properties of each of them, in list
  order, and written with \<^verbatim>\<open>visible\<close> true, so that every key of the last of them other
  than \<^verbatim>\<open>visible\<close> carries that object's value. The local objects are the ones passed in
  followed by their colour bars, with the properties they have after the call (default
  names included).
\<close>

theorem view_reconciles_objects:
  assumes "viewonly w" and "cb_leaves (heap w)" and "lavavu e" and "rank e = 0"
    and "getFigures e = Figures states ts"
    and "locate_state figname states = Inr chosen"
    and "st_views chosen \<noteq> []"
    and "\<forall>d \<in> set (st_objects chosen). ''name'' \<in> dom d"
  shows "\<exists>w' st'. generate e figname objs props w = Some (w', Inr ())
          \<and> written w' = written w @ [(figname, State st')]
          \<and> length (st_objects st') = length (st_objects chosen)
          \<and> (\<forall>i < length (st_objects chosen).
                (objs = [] \<longrightarrow> st_objects st' ! i = (st_objects chosen ! i)(''visible'' \<mapsto> VBool True))
              \<and> (objs \<noteq> [] \<longrightarrow>
                   (let d = st_objects chosen ! i;
                        ms = filter (matches (the (d ''name'')))
                               (map (\<lambda>obj. properties (heap w' obj)) (active (heap w) objs))
                    in (ms = [] \<longrightarrow> st_objects st' ! i = d(''visible'' \<mapsto> VBool False))
                     \<and> (ms \<noteq> [] \<longrightarrow>
                          st_objects st' ! i = (foldl dict_update d ms)(''visible'' \<mapsto> VBool True)
                          \<and> (\<forall>k v. k \<noteq> ''visible'' \<longrightarrow> last ms k = Some v \<longrightarrow>
                                (st_objects st' ! i) k = Some v)))))"
proof -
  let ?A = "active (heap w) objs"
  let ?so = "add_new ?A (s_objects w)"
  let ?h = "named ?so (clear_parents (set ?A) (heap w))"
  let ?ps = "map (\<lambda>obj. properties (?h obj)) ?A"
  obtain v vs where vs: "st_views chosen = v # vs" using assms(7) by (cases "st_views chosen") auto
  have ps: "\<forall>p \<in> set ?ps. ''name'' \<in> dom p"
    using named_has_name[of _ ?so] by (auto simp: set_add_new)
  let ?ds = "if ?ps \<noteq> [] then map (reconciled ?ps) (st_objects chosen) else show_all (st_objects chosen)"
  let ?st = "chosen\<lparr>st_objects := ?ds,
                 st_properties := dict_update (st_properties chosen) props,
                 st_views := dict_update v props # vs\<rparr>"
  let ?w' = "w\<lparr>s_objects := ?so, heap := ?h, db_opened := True, viewer_open := True, timesteps := ts,
               written := written w @ [(figname, State ?st)]\<rparr>"
  have rec: "reconcile figname ?ps props states = Inr ?st"
    by (rule reconcile_result[OF assms(6) vs assms(8) ps])
  have g: "generate e figname objs props w = Some (?w', Inr ())"
    unfolding generate_view_result[OF assms(1-5)] rec by simp
  have emp: "?ps = [] \<longleftrightarrow> objs = []"
    by (auto simp: active_def colour_bars_def map_filter_simps)
  have lastwins: "(foldl dict_update d ms) k = Some x" if "ms \<noteq> []" and "last ms k = Some x" for d ms k x
    using that
  proof (induction ms arbitrary: d)
    case Nil then show ?case by simp
  next
    case (Cons q ms)
    then show ?case by (cases "ms = []") (auto simp: dict_update_def)
  qed
  have each: "(objs = [] \<longrightarrow> ?ds ! i = (st_objects chosen ! i)(''visible'' \<mapsto> VBool True))
              \<and> (objs \<noteq> [] \<longrightarrow>
                   (let d = st_objects chosen ! i;
                        ms = filter (matches (the (d ''name''))) ?ps
                    in (ms = [] \<longrightarrow> ?ds ! i = d(''visible'' \<mapsto> VBool False))
                     \<and> (ms \<noteq> [] \<longrightarrow>
                          ?ds ! i = (foldl dict_update d ms)(''visible'' \<mapsto> VBool True)
                          \<and> (\<forall>k v. k \<noteq> ''visible'' \<longrightarrow> last ms k = Some v \<longrightarrow> (?ds ! i) k = Some v))))"
    if "i < length (st_objects chosen)" for i
  proof (cases "objs = []")
    case True
    then show ?thesis using that emp by (simp add: show_all_def)
  next
    case False
    then have "?ds ! i = reconciled ?ps (st_objects chosen ! i)" using that emp by simp
    then show ?thesis using False lastwins
      by (auto simp: reconciled_def Let_def)
  qed
  have len: "length ?ds = length (st_objects chosen)" by (simp add: show_all_def)
  show ?thesis
    apply (intro exI[of _ ?w'] exI[of _ ?st] conjI)
       apply (rule g)
      apply simp
    using len apply simp
    using each by simp
qed

text \<open>
  The stored figure \<^verbatim>\<open>Figure_1\<close> has the objects \<^verbatim>\<open>A\<close> (visible) and \<^verbatim>\<open>B\<close> (hidden); the one
  local object is named \<^verbatim>\<open>B\<close> and red. Afterwards \<^verbatim>\<open>A\<close> is hidden, \<^verbatim>\<open>B\<close> is visible and red.
\<close>

theorem view_reconciles_objects_witness:
  "viewonly ex_view_world \<and> cb_leaves (heap ex_view_world) \<and> lavavu ex_view_env \<and> rank ex_view_env = 0
   \<and> getFigures ex_view_env = Figures [ex_fig1, ex_fig2] [0, 1]
   \<and> locate_state ''Figure_1'' [ex_fig1, ex_fig2] = Inr ex_fig1
   \<and> st_views ex_fig1 \<noteq> []
   \<and> st_objects ex_fig1 = [ex_A, ex_B] \<and> ''name'' \<in> dom ex_A \<and> ''name'' \<in> dom ex_B
   \<and> (\<exists>w' st'. generate ex_view_env ''Figure_1'' [20] Map.empty ex_view_world = Some (w', Inr ())
         \<and> written w' = [(''Figure_1'', State st')]
         \<and> st_objects st' = [ex_A(''visible'' \<mapsto> VBool False),
                              [''name'' \<mapsto> VStr ''B'', ''colour'' \<mapsto> VStr ''red'', ''visible'' \<mapsto> VBool True]])"
proof -
  have loc: "locate_state ''Figure_1'' [ex_fig1, ex_fig2] = Inr ex_fig1"
    by (simp add: locate_state_def ex_fig1_def)
  have vw: "st_views ex_fig1 \<noteq> []" by (simp add: ex_fig1_def)
  have so: "st_objects ex_fig1 = [ex_A, ex_B]" by (simp add: ex_fig1_def)
  have nm: "''name'' \<in> dom ex_A" "''name'' \<in> dom ex_B" by (simp_all add: ex_A_def ex_B_def)
  have nms: "\<forall>d \<in> set (st_objects ex_fig1). ''name'' \<in> dom d" using so nm by simp
  have l: "cb_leaves (heap ex_view_world)" by (simp add: ex_view_world_simps cb_leaves_ex_view_heap)
  have hw: "heap w' = named [20] (clear_parents {20} ex_view_heap)"
    if "generate ex_view_env ''Figure_1'' [20] Map.empty ex_view_world = Some (w', r)" for w' r
    using that
    unfolding generate_view_result[OF ex_view_world_simps(1) l ex_view_env_simps]
    by (auto simp: ex_view_world_simps active_ex_view add_new_def split: sum.splits)
  obtain w' st' where g: "generate ex_view_env ''Figure_1'' [20] Map.empty ex_view_world = Some (w', Inr ())"
    and wr: "written w' = written ex_view_world @ [(''Figure_1'', State st')]"
    and len: "length (st_objects st') = length (st_objects ex_fig1)"
    and each: "\<forall>i < length (st_objects ex_fig1).
                ([20] = [] \<longrightarrow> st_objects st' ! i = (st_objects ex_fig1 ! i)(''visible'' \<mapsto> VBool True))
              \<and> ([20] \<noteq> [] \<longrightarrow>
                   (let d = st_objects ex_fig1 ! i;
                        ms = filter (matches (the (d ''name'')))
                               (map (\<lambda>obj. properties (heap w' obj)) (active (heap ex_view_world) [20]))
                    in (ms = [] \<longrightarrow> st_objects st' ! i = d(''visible'' \<mapsto> VBool False))
                     \<and> (ms \<noteq> [] \<longrightarrow>
                          st_objects st' ! i = (foldl dict_update d ms)(''visible'' \<mapsto> VBool True)
                          \<and> (\<forall>k v. k \<noteq> ''visible'' \<longrightarrow> last ms k = Some v \<longrightarrow>
                                (st_objects st' ! i) k = Some v))))"
    using view_reconciles_objects[OF ex_view_world_simps(1) l ex_view_env_simps loc vw nms,
        of "[20]" Map.empty] by blast
  have ps: "map (\<lambda>obj. properties (heap w' obj)) (active (heap ex_view_world) [20])
      = [[''name'' \<mapsto> VStr ''B'', ''colour'' \<mapsto> VStr ''red'']]"
    by (simp add: hw[OF g] ex_view_world_simps active_ex_view ex_view_overrides)
  have a: "st_objects st' ! 0 = ex_A(''visible'' \<mapsto> VBool False)"
    using each[rule_format, of 0] unfolding ps
    by (simp add: so Let_def matches_def py_eq_def ex_A_def)
  have b: "st_objects st' ! 1 = [''name'' \<mapsto> VStr ''B'', ''colour'' \<mapsto> VStr ''red'', ''visible'' \<mapsto> VBool True]"
    using each[rule_format, of 1] unfolding ps
    by (auto simp add: so Let_def matches_def py_eq_def ex_B_def dict_update_def map_add_def fun_eq_iff)
  have "length (st_objects st') = 2" using len so by simp
  then have "st_objects st' = [st_objects st' ! 0, st_objects st' ! 1]"
    by (cases "st_objects st'"; cases "tl (st_objects st')") auto
  then have "st_objects st' = [ex_A(''visible'' \<mapsto> VBool False),
                              [''name'' \<mapsto> VStr ''B'', ''colour'' \<mapsto> VStr ''red'', ''visible'' \<mapsto> VBool True]]"
    using a b by simp
  then show ?thesis
    using g wr loc vw so nm l by (simp add: ex_view_world_simps ex_view_env_simps)
qed

section \<open>C2: locating the state of a figure\<close>

text \<open>
  Claim C2. For a document that is not empty, the lookup of lines 240 to 247 yields the
  first state whose \<^verbatim>\<open>figure\<close> is the requested name, and the last state of the document
  when there is none; it raises nothing. In view-only mode with the viewer answering with
  such a document, \<^verbatim>\<open>_generate\<close> goes on with that state: when it returns, the state it
  writes is the located one with its objects, properties and first view updated; when it
  raises, it is the \<^verbatim>\<open>KeyError\<close> of a stored object without a name or the \<^verbatim>\<open>IndexError\<close> of a
  located state without views, both raised after the lookup.
\<close>

theorem view_locates_named_or_last:
  assumes "viewonly w" and "cb_leaves (heap w)" and "lavavu e" and "rank e = 0"
    and "getFigures e = Figures states ts" and "states \<noteq> []"
  shows "\<exists>chosen. locate_state figname states = Inr chosen
          \<and> chosen = (case find (\<lambda>s. st_figure s = figname) states of Some s \<Rightarrow> s | None \<Rightarrow> last states)
          \<and> (\<exists>w' r. generate e figname objs props w = Some (w', r)
                \<and> (case r of
                      Inr u \<Rightarrow> \<exists>ds. written w' = written w @
                                 [(figname, State (chosen\<lparr>st_objects := ds,
                                     st_properties := dict_update (st_properties chosen) props,
                                     st_views := dict_update (hd (st_views chosen)) props # tl (st_views chosen)\<rparr>))]
                               \<and> length ds = length (st_objects chosen)
                    | Inl x \<Rightarrow> written w' = written w
                               \<and> (x = KeyError ''name'' \<or> x = IndexError \<and> st_views chosen = [])))"
proof -
  let ?chosen = "case find (\<lambda>s. st_figure s = figname) states of Some s \<Rightarrow> s | None \<Rightarrow> last states"
  let ?ps = "map (\<lambda>obj. properties (named (add_new (active (heap w) objs) (s_objects w))
                                             (clear_parents (set (active (heap w) objs)) (heap w)) obj))
                       (active (heap w) objs)"
  have loc: "locate_state figname states = Inr ?chosen" by (rule locate_state_eq[OF assms(6)])
  have "\<exists>w' r. generate e figname objs props w = Some (w', r)
                \<and> (case r of
                      Inr u \<Rightarrow> \<exists>ds. written w' = written w @
                                 [(figname, State (?chosen\<lparr>st_objects := ds,
                                     st_properties := dict_update (st_properties ?chosen) props,
                                     st_views := dict_update (hd (st_views ?chosen)) props # tl (st_views ?chosen)\<rparr>))]
                               \<and> length ds = length (st_objects ?chosen)
                    | Inl x \<Rightarrow> written w' = written w
                               \<and> (x = KeyError ''name'' \<or> x = IndexError \<and> st_views ?chosen = []))"
    using reconcile_cases[OF loc, of ?ps props]
    unfolding generate_view_result[OF assms(1-5)]
    by (elim disjE exE conjE) auto
  then show ?thesis using loc by blast
qed

text \<open>
  The name \<^verbatim>\<open>Missing\<close> against the figures \<^verbatim>\<open>Figure_1\<close> and \<^verbatim>\<open>Figure_2\<close>: the state of
  \<^verbatim>\<open>Figure_2\<close> is located and written back under the name \<^verbatim>\<open>Missing\<close>.
\<close>

theorem view_locates_named_or_last_witness:
  "viewonly ex_view_world \<and> cb_leaves (heap ex_view_world) \<and> lavavu ex_view_env \<and> rank ex_view_env = 0
   \<and> getFigures ex_view_env = Figures [ex_fig1, ex_fig2] [0, 1] \<and> [ex_fig1, ex_fig2] \<noteq> []
   \<and> locate_state ''Missing'' [ex_fig1, ex_fig2] = Inr ex_fig2
   \<and> locate_state ''Figure_1'' [ex_fig1, ex_fig2] = Inr ex_fig1
   \<and> (\<exists>w' st'. generate ex_view_env ''Missing'' [] Map.empty ex_view_world = Some (w', Inr ())
         \<and> written w' = [(''Missing'', State st')] \<and> st_figure st' = ''Figure_2'')"
proof -
  have l: "cb_leaves (heap ex_view_world)" by (simp add: ex_view_world_simps cb_leaves_ex_view_heap)
  have ne: "[ex_fig1, ex_fig2] \<noteq> []" by simp
  have f: "(case find (\<lambda>s. st_figure s = ''Missing'') [ex_fig1, ex_fig2] of Some s \<Rightarrow> s | None \<Rightarrow> last [ex_fig1, ex_fig2]) = ex_fig2"
    by (simp add: ex_fig1_def ex_fig2_def)
  have loc1: "locate_state ''Figure_1'' [ex_fig1, ex_fig2] = Inr ex_fig1"
    by (simp add: locate_state_def ex_fig1_def)
  obtain w' r where loc: "locate_state ''Missing'' [ex_fig1, ex_fig2] = Inr ex_fig2"
    and g: "generate ex_view_env ''Missing'' [] Map.empty ex_view_world = Some (w', r)"
    and c: "case r of
              Inr u \<Rightarrow> \<exists>ds. written w' = written ex_view_world @
                         [(''Missing'', State (ex_fig2\<lparr>st_objects := ds,
                             st_properties := dict_update (st_properties ex_fig2) Map.empty,
                             st_views := dict_update (hd (st_views ex_fig2)) Map.empty # tl (st_views ex_fig2)\<rparr>))]
                       \<and> length ds = length (st_objects ex_fig2)
            | Inl x \<Rightarrow> written w' = written ex_view_world
                       \<and> (x = KeyError ''name'' \<or> x = IndexError \<and> st_views ex_fig2 = [])"
    using view_locates_named_or_last[OF ex_view_world_simps(1) l ex_view_env_simps ne,
        of "''Missing''" "[]" Map.empty]
    unfolding f by blast
  have sv2: "st_views ex_fig2 = [[''title'' \<mapsto> VStr ''two'']]" by (simp add: ex_fig2_def)
  have r: "r = Inr ()"
    using g unfolding generate_view_result[OF ex_view_world_simps(1) l ex_view_env_simps]
    by (simp add: reconcile_def loc active_def colour_bars_def map_filter_simps sv2 split: sum.splits)
  obtain st' where "written w' = [(''Missing'', State st')]" and "st_figure st' = ''Figure_2''"
    using c unfolding r by (auto simp: ex_view_world_simps ex_fig2_def)
  then show ?thesis
    using g r loc loc1 l by (auto simp add: ex_view_world_simps ex_view_env_simps)
qed

section \<open>C3: default names\<close>

text \<open>
  Claim C3. On a heap whose colour bars carry no colour bar and a store whose list has no
  duplicates, \<^verbatim>\<open>_generate\<close> returns (normally, or by raising in the view-only branch, after
  the names are set), every object passed in is in \<^verbatim>\<open>self._objects\<close> afterwards, and every
  object of that list that had no \<^verbatim>\<open>name\<close> before the call is named \<^verbatim>\<open>ColourBar_<i>\<close> when its
  \<^verbatim>\<open>colourbar\<close> property is truthy and \<^verbatim>\<open><type without its first three characters>_<i>\<close>
  otherwise, \<open>i\<close> being its position in \<^verbatim>\<open>self._objects\<close>.
\<close>

theorem default_names_use_global_index:
  assumes "cb_leaves (heap w)" and "distinct (s_objects w)"
  shows "\<exists>w' r. generate e figname objs props w = Some (w', r)
          \<and> set objs \<subseteq> set (s_objects w')
          \<and> (\<forall>i < length (s_objects w').
               ''name'' \<notin> dom (properties (heap w (s_objects w' ! i))) \<longrightarrow>
               properties (heap w' (s_objects w' ! i)) ''name'' =
                 Some (VStr (if (case properties (heap w (s_objects w' ! i)) ''colourbar'' of
                                   Some v \<Rightarrow> truthy v | None \<Rightarrow> False)
                             then ''ColourBar_'' @ str_nat i
                             else drop 3 (dr_type (heap w (s_objects w' ! i))) @ ''_'' @ str_nat i)))"
proof -
  let ?A = "active (heap w) objs"
  let ?so = "add_new ?A (s_objects w)"
  let ?h = "named ?so (clear_parents (set ?A) (heap w))"
  let ?w2 = "w\<lparr>s_objects := ?so, heap := ?h\<rparr>"
  have "\<exists>w' r. generate e figname objs props w = Some (w', r)
           \<and> (\<forall>obj. properties (heap w' obj) ''name'' = properties (?h obj) ''name'') \<and> s_objects w' = ?so"
  proof (cases "viewonly w")
    case True
    then have "generate e figname objs props w = Some (generate_view e figname ?A props ?w2)"
      by (simp add: generate_closed[OF assms(1)] Let_def)
    then show ?thesis
      by (cases "generate_view e figname ?A props ?w2")
         (use generate_view_heap[of e figname ?A props ?w2] in auto)
  next
    case False
    then have "generate e figname objs props w = Some (generate_live e figname ?A props ?w2, Inr ())"
      by (simp add: generate_closed[OF assms(1)] Let_def)
    then show ?thesis
      by (simp add: generate_live_closed shown_def)
  qed
  then obtain w' r where res: "generate e figname objs props w = Some (w', r)"
    and w': "\<And>obj. properties (heap w' obj) ''name'' = properties (?h obj) ''name''" "s_objects w' = ?so" by blast
  have sub: "set objs \<subseteq> set ?so" by (auto simp: set_add_new set_active)
  have dist: "distinct ?so" using assms(2) by (rule distinct_add_new)
  have "properties (?h (?so ! i)) ''name'' =
                 Some (VStr (if (case properties (heap w (?so ! i)) ''colourbar'' of
                                   Some v \<Rightarrow> truthy v | None \<Rightarrow> False)
                             then ''ColourBar_'' @ str_nat i
                             else drop 3 (dr_type (heap w (?so ! i))) @ ''_'' @ str_nat i))"
    if "i < length ?so" and "''name'' \<notin> dom (properties (heap w (?so ! i)))" for i
    using that first_index_nth[OF dist that(1)]
    by (auto simp: named_def clear_parents_def default_name_def)
  then show ?thesis using res w' sub by auto
qed

text \<open>
  The store already holds object 10 from an earlier figure; object 11, a surface with the
  colour bar 12, is rendered. The surface is first in the figure and second in the store:
  its name ends in 1.
\<close>

theorem default_names_use_global_index_witness:
  "cb_leaves (heap ex_world) \<and> distinct (s_objects ex_world) \<and>
   (\<exists>w' r. generate ex_env ''Figure_2'' [11] Map.empty ex_world = Some (w', r)
      \<and> s_objects w' = [10, 11, 12]
      \<and> properties (heap w' 11) ''name'' = Some (VStr ''ScalarField_1'')
      \<and> properties (heap w' 12) ''name'' = Some (VStr ''ColourBar_2''))"
proof -
  have h1: "cb_leaves (heap ex_world)" by (simp add: ex_world_def Store_init_def cb_leaves_ex_heap)
  have h2: "distinct (s_objects ex_world)" by (simp add: ex_world_def)
  have nv: "\<not> viewonly ex_world" by (simp add: ex_world_def Store_init_def)
  obtain w' r where g: "generate ex_env ''Figure_2'' [11] Map.empty ex_world = Some (w', r)"
    and n: "\<forall>i < length (s_objects w').
               ''name'' \<notin> dom (properties (heap ex_world (s_objects w' ! i))) \<longrightarrow>
               properties (heap w' (s_objects w' ! i)) ''name'' =
                 Some (VStr (if (case properties (heap ex_world (s_objects w' ! i)) ''colourbar'' of
                                   Some v \<Rightarrow> truthy v | None \<Rightarrow> False)
                             then ''ColourBar_'' @ str_nat i
                             else drop 3 (dr_type (heap ex_world (s_objects w' ! i))) @ ''_'' @ str_nat i))"
    using default_names_use_global_index[OF h1 h2, of ex_env "''Figure_2''" "[11]" Map.empty] by blast
  have so: "s_objects w' = [10, 11, 12]"
    using g unfolding generate_live_result[OF h1 nv]
    by (auto simp: ex_world_def Store_init_def active_ex add_new_def)
  have "properties (heap w' 11) ''name'' = Some (VStr ''ScalarField_1'')"
    using n[rule_format, of 1] so
    by (simp add: ex_world_def Store_init_def ex_heap_def blank_def str_nat.simps)
  moreover have "properties (heap w' 12) ''name'' = Some (VStr ''ColourBar_2'')"
    using n[rule_format, of 2] so
    by (simp add: ex_world_def Store_init_def ex_heap_def blank_def str_nat.simps)
  ultimately show ?thesis using h1 h2 g so by simp
qed

section \<open>C4: stability of names\<close>

text \<open>
  Claim C4. Once an object has a name, every further sequence of \<^verbatim>\<open>_generate\<close> calls on the
  store returns and leaves that name in the object's properties, however many objects the
  calls append to \<^verbatim>\<open>self._objects\<close>; and in every state the calls write in live mode, the
  entry of that object carries this name.
\<close>

theorem default_names_stable:
  assumes "cb_leaves (heap w)" and "properties (heap w obj) ''name'' = Some v"
  shows "\<exists>w'. generate_all e calls w = Some w'
          \<and> properties (heap w' obj) ''name'' = Some v
          \<and> (\<forall>(figname, js) \<in> set (drop (length (written w)) (written w')).
                \<forall>x i. js = Export x \<longrightarrow> i < length (ex_objects x) \<longrightarrow>
                  s_objects w' ! i = obj \<longrightarrow> (ex_objects x ! i) ''name'' = Some v)"
proof -
  obtain w' ys zs where "generate_all e calls w = Some w'"
    and "properties (heap w' obj) ''name'' = Some v"
    and "written w' = written w @ zs"
    and "\<forall>(figname, js) \<in> set zs. \<forall>x i. js = Export x \<longrightarrow> i < length (ex_objects x) \<longrightarrow>
                 s_objects w' ! i = obj \<longrightarrow> (ex_objects x ! i) ''name'' = Some v"
    using generate_all_stable[OF assms, of e calls] by blast
  then show ?thesis by (intro exI[of _ w']) simp
qed

text \<open>
  The surface 11 is named \<^verbatim>\<open>ScalarField_1\<close> by its first rendering; two more renderings,
  which bring object 13 into the store, leave the name as it is.
\<close>

theorem default_names_stable_witness:
  "\<exists>w1. generate ex_env ''Figure_2'' [11] Map.empty ex_world = Some (w1, Inr ())
      \<and> cb_leaves (heap w1)
      \<and> properties (heap ex_world 11) ''name'' = None
      \<and> properties (heap w1 11) ''name'' = Some (VStr ''ScalarField_1'')
      \<and> (\<exists>w'. generate_all ex_env [(''Figure_3'', [13], Map.empty), (''Figure_2'', [11, 13], Map.empty)] w1 = Some w'
             \<and> properties (heap w' 11) ''name'' = Some (VStr ''ScalarField_1''))"
proof -
  have h1: "cb_leaves (heap ex_world)" by (simp add: ex_world_def Store_init_def cb_leaves_ex_heap)
  have nv: "\<not> viewonly ex_world" by (simp add: ex_world_def Store_init_def)
  have n0: "properties (heap ex_world 11) ''name'' = None"
    by (simp add: ex_world_def Store_init_def ex_heap_def blank_def)
  obtain w1 where g: "generate ex_env ''Figure_2'' [11] Map.empty ex_world = Some (w1, Inr ())"
    and h: "heap w1 = shown [11, 12] [10, 11, 12] (named [10, 11, 12] (clear_parents {11, 12} ex_heap))"
    unfolding generate_live_result[OF h1 nv]
    by (simp add: ex_world_def Store_init_def active_ex add_new_def)
  have l1: "cb_leaves (heap w1)"
    unfolding h using cb_leaves_ex_heap
      cb_leaves_cong[of "shown [11, 12] [10, 11, 12] (named [10, 11, 12] (clear_parents {11, 12} ex_heap))" ex_heap]
    by simp
  have n1: "properties (heap w1 11) ''name'' = Some (VStr ''ScalarField_1'')"
    unfolding h
    by (simp add: shown_def named_def clear_parents_def ex_heap_def blank_def first_index_def
        default_name_def str_nat.simps)
  obtain w' where "generate_all ex_env [(''Figure_3'', [13], Map.empty), (''Figure_2'', [11, 13], Map.empty)] w1 = Some w'"
    and "properties (heap w' 11) ''name'' = Some (VStr ''ScalarField_1'')"
    using default_names_stable[OF l1 n1] by blast
  then show ?thesis using g l1 n0 n1 by blast
qed

section \<open>C5: visibility in live mode\<close>

text \<open>
  Claim C5. In live mode, on a store whose objects have no parent set (as every call leaves
  them), \<^verbatim>\<open>_generate\<close> returns normally, the store then holds its earlier objects, the
  objects passed in and their colour bars, and each of them has \<^verbatim>\<open>visible\<close> true exactly
  when it was passed in or is the colour bar of an object passed in, and false otherwise.
\<close>

theorem live_visible_iff_active:
  assumes "\<not> viewonly w" and "cb_leaves (heap w)"
    and "\<forall>obj \<in> set (s_objects w). parent (heap w obj) = None"
  shows "\<exists>w'. generate e figname objs props w = Some (w', Inr ())
          \<and> set (s_objects w') = set (s_objects w) \<union> set objs \<union> {cb. \<exists>p \<in> set objs. colourBar (heap w p) = Some cb}
          \<and> (\<forall>obj \<in> set (s_objects w').
                properties (heap w' obj) ''visible'' =
                  Some (VBool (obj \<in> set objs \<or> (\<exists>p \<in> set objs. colourBar (heap w p) = Some obj))))"
proof -
  let ?A = "active (heap w) objs"
  let ?so = "add_new ?A (s_objects w)"
  let ?h = "named ?so (clear_parents (set ?A) (heap w))"
  have par: "parent (?h obj) = None" if "obj \<in> set ?so" for obj
    using that assms(3) by (auto simp: set_add_new clear_parents_def)
  have vis: "properties (shown ?A ?so ?h obj) ''visible'' =
      Some (VBool (obj \<in> set objs \<or> (\<exists>p \<in> set objs. colourBar (heap w p) = Some obj)))"
    if "obj \<in> set ?so" for obj
    using visible_shown[OF that, of ?A ?h] par[OF that] by (auto simp: set_active)
  have so: "set ?so = set (s_objects w) \<union> set objs \<union> {cb. \<exists>p \<in> set objs. colourBar (heap w p) = Some cb}"
    by (auto simp: set_add_new set_active)
  show ?thesis
    unfolding generate_live_result[OF assms(2) assms(1)]
    using vis so by simp
qed

text \<open>
  Object 10 stays in the store from an earlier figure and is hidden; the surface 11 and
  its colour bar 12 are shown.
\<close>

theorem live_visible_iff_active_witness:
  "\<not> viewonly ex_world \<and> cb_leaves (heap ex_world)
   \<and> s_objects ex_world = [10] \<and> parent (heap ex_world 10) = None
   \<and> (\<exists>w'. generate ex_env ''Figure_2'' [11] Map.empty ex_world = Some (w', Inr ())
        \<and> set (s_objects w') = {10, 11, 12}
        \<and> properties (heap w' 10) ''visible'' = Some (VBool False)
        \<and> properties (heap w' 11) ''visible'' = Some (VBool True)
        \<and> properties (heap w' 12) ''visible'' = Some (VBool True))"
proof -
  have h1: "cb_leaves (heap ex_world)" by (simp add: ex_world_def Store_init_def cb_leaves_ex_heap)
  have h3: "\<forall>obj \<in> set (s_objects ex_world). parent (heap ex_world obj) = None"
    by (simp add: ex_world_def Store_init_def ex_heap_def blank_def)
  have nv: "\<not> viewonly ex_world" by (simp add: ex_world_def Store_init_def)
  have cbs: "{cb. \<exists>p \<in> set [11]. colourBar (heap ex_world p) = Some cb} = {12}"
    by (auto simp: ex_world_def Store_init_def ex_heap_def blank_def)
  obtain w' where g: "generate ex_env ''Figure_2'' [11] Map.empty ex_world = Some (w', Inr ())"
    and so: "set (s_objects w') = set (s_objects ex_world) \<union> set [11] \<union> {cb. \<exists>p \<in> set [11]. colourBar (heap ex_world p) = Some cb}"
    and v: "\<forall>obj \<in> set (s_objects w').
                properties (heap w' obj) ''visible'' =
                  Some (VBool (obj \<in> set [11] \<or> (\<exists>p \<in> set [11]. colourBar (heap ex_world p) = Some obj)))"
    using live_visible_iff_active[OF nv h1 h3, of ex_env "''Figure_2''" "[11]" Map.empty] by blast
  have so': "set (s_objects w') = {10, 11, 12}" unfolding so cbs by (auto simp: ex_world_def)
  have "properties (heap w' 10) ''visible'' = Some (VBool False)"
    using v[rule_format, of 10] so' by (simp add: ex_world_def Store_init_def ex_heap_def blank_def)
  moreover have "properties (heap w' 11) ''visible'' = Some (VBool True)"
    using v[rule_format, of 11] so' by (simp add: ex_world_def Store_init_def ex_heap_def blank_def)
  moreover have "properties (heap w' 12) ''visible'' = Some (VBool True)"
    using v[rule_format, of 12] so' by (simp add: ex_world_def Store_init_def ex_heap_def blank_def)
  ultimately show ?thesis using h1 nv g so'
    by (simp add: ex_world_def Store_init_def ex_heap_def blank_def)
qed

section \<open>C6: merging the figure's properties\<close>

text \<open>
  Claim C6. \<^verbatim>\<open>dict.update\<close> is last-write-wins per key, so that \<^verbatim>\<open>{a:1,b:2}\<close> updated by
  \<^verbatim>\<open>{b:3,c:4}\<close> is \<^verbatim>\<open>{a:1,b:3,c:4}\<close>; and in view-only mode with the viewer answering, a located
  state that has a view and stored objects that have names, \<^verbatim>\<open>_generate\<close> writes the located
  state with the caller's properties merged in this way into its \<^verbatim>\<open>properties\<close> and into the
  first of its \<^verbatim>\<open>views\<close>, the other views unchanged.
\<close>

theorem view_merges_figure_properties:
  assumes "viewonly w" and "cb_leaves (heap w)" and "lavavu e" and "rank e = 0"
    and "getFigures e = Figures states ts"
    and "locate_state figname states = Inr chosen"
    and "st_views chosen = v # vs"
    and "\<forall>d \<in> set (st_objects chosen). ''name'' \<in> dom d"
  shows "dict_update [''a'' \<mapsto> VInt 1, ''b'' \<mapsto> VInt 2] [''b'' \<mapsto> VInt 3, ''c'' \<mapsto> VInt 4]
           = [''a'' \<mapsto> VInt 1, ''b'' \<mapsto> VInt 3, ''c'' \<mapsto> VInt 4]
         \<and> (\<exists>w' st'. generate e figname objs props w = Some (w', Inr ())
               \<and> written w' = written w @ [(figname, State st')]
               \<and> st_properties st' = dict_update (st_properties chosen) props
               \<and> st_views st' = dict_update v props # vs
               \<and> (\<forall>k. st_properties st' k = (case props k of Some x \<Rightarrow> Some x | None \<Rightarrow> st_properties chosen k))
               \<and> (\<forall>k. hd (st_views st') k = (case props k of Some x \<Rightarrow> Some x | None \<Rightarrow> v k)))"
proof -
  let ?A = "active (heap w) objs"
  let ?so = "add_new ?A (s_objects w)"
  let ?h = "named ?so (clear_parents (set ?A) (heap w))"
  let ?ps = "map (\<lambda>obj. properties (?h obj)) ?A"
  have ps: "\<forall>p \<in> set ?ps. ''name'' \<in> dom p"
    using named_has_name[of _ ?so] by (auto simp: set_add_new)
  have ex: "dict_update [''a'' \<mapsto> VInt 1, ''b'' \<mapsto> VInt 2] [''b'' \<mapsto> VInt 3, ''c'' \<mapsto> VInt 4]
           = [''a'' \<mapsto> VInt 1, ''b'' \<mapsto> VInt 3, ''c'' \<mapsto> VInt 4]"
    by (auto simp: dict_update_def map_add_def fun_eq_iff)
  have lw: "dict_update d p k = (case p k of Some x \<Rightarrow> Some x | None \<Rightarrow> d k)" for d p k
    by (simp add: dict_update_def map_add_def)
  show ?thesis
    unfolding generate_view_result[OF assms(1-5)] reconcile_result[OF assms(6,7,8) ps]
    using ex by (simp add: lw)
qed

text \<open>
  The figure's properties \<^verbatim>\<open>title\<close> and \<^verbatim>\<open>axis\<close> against the stored \<^verbatim>\<open>title\<close> of \<^verbatim>\<open>Figure_1\<close>:
  the new title replaces the stored one, in the properties and in the view.
\<close>

theorem view_merges_figure_properties_witness:
  "viewonly ex_view_world \<and> cb_leaves (heap ex_view_world) \<and> lavavu ex_view_env \<and> rank ex_view_env = 0
   \<and> getFigures ex_view_env = Figures [ex_fig1, ex_fig2] [0, 1]
   \<and> locate_state ''Figure_1'' [ex_fig1, ex_fig2] = Inr ex_fig1
   \<and> st_views ex_fig1 = [[''title'' \<mapsto> VStr ''one'']]
   \<and> st_objects ex_fig1 = [ex_A, ex_B] \<and> ''name'' \<in> dom ex_A \<and> ''name'' \<in> dom ex_B
   \<and> (\<exists>w' st'. generate ex_view_env ''Figure_1'' [] [''title'' \<mapsto> VStr ''new'', ''axis'' \<mapsto> VBool True] ex_view_world
                  = Some (w', Inr ())
         \<and> written w' = [(''Figure_1'', State st')]
         \<and> st_properties st' = [''title'' \<mapsto> VStr ''new'', ''axis'' \<mapsto> VBool True]
         \<and> st_views st' = [[''title'' \<mapsto> VStr ''new'', ''axis'' \<mapsto> VBool True]])"
proof -
  have loc: "locate_state ''Figure_1'' [ex_fig1, ex_fig2] = Inr ex_fig1"
    by (simp add: locate_state_def ex_fig1_def)
  have vw: "st_views ex_fig1 = [[''title'' \<mapsto> VStr ''one'']]" by (simp add: ex_fig1_def)
  have so: "st_objects ex_fig1 = [ex_A, ex_B]" by (simp add: ex_fig1_def)
  have nm: "''name'' \<in> dom ex_A" "''name'' \<in> dom ex_B" by (simp_all add: ex_A_def ex_B_def)
  have nms: "\<forall>d \<in> set (st_objects ex_fig1). ''name'' \<in> dom d" using so nm by simp
  have l: "cb_leaves (heap ex_view_world)" by (simp add: ex_view_world_simps cb_leaves_ex_view_heap)
  let ?p = "[''title'' \<mapsto> VStr ''new'', ''axis'' \<mapsto> VBool True]"
  have d: "dict_update [''title'' \<mapsto> VStr ''one''] ?p = ?p"
    by (auto simp: dict_update_def map_add_def fun_eq_iff)
  have sp: "st_properties ex_fig1 = [''title'' \<mapsto> VStr ''one'']" by (simp add: ex_fig1_def)
  obtain w' st' where "generate ex_view_env ''Figure_1'' [] ?p ex_view_world = Some (w', Inr ())"
    and "written w' = written ex_view_world @ [(''Figure_1'', State st')]"
    and "st_properties st' = dict_update (st_properties ex_fig1) ?p"
    and "st_views st' = dict_update [''title'' \<mapsto> VStr ''one''] ?p # []"
    using view_merges_figure_properties[OF ex_view_world_simps(1) l ex_view_env_simps loc vw nms,
        of "[]" ?p] by blast
  then show ?thesis
    using loc vw so nm l unfolding sp d
    by (auto simp add: ex_view_world_simps ex_view_env_simps)
qed

section \<open>C7: rendering a figure twice\<close>

text \<open>
  Claim C7. In live mode, \<^verbatim>\<open>_generate\<close> called again for the same figure with the same
  objects and properties, whatever the store's step has become in between, writes the same
  state as the first call: the store is the one the first call left, with the new step as
  write step and that state written once more.
\<close>

theorem live_generate_idempotent:
  assumes "\<not> viewonly w" and "cb_leaves (heap w)"
  shows "\<exists>w1 x. generate e figname objs props w = Some (w1, Inr ())
           \<and> written w1 = written w @ [(figname, Export x)]
           \<and> generate e figname objs props (w1\<lparr>step := t\<rparr>) =
               Some (w1\<lparr>step := t, db_timeStep := t, written := written w1 @ [(figname, Export x)]\<rparr>, Inr ())"
proof -
  let ?A = "active (heap w) objs"
  let ?so = "add_new ?A (s_objects w)"
  let ?h1 = "shown ?A ?so (named ?so (clear_parents (set ?A) (heap w)))"
  let ?x = "get_state ?so props ?h1"
  let ?w1 = "w\<lparr>s_objects := ?so, db_timeStep := step w, heap := ?h1,
               written := written w @ [(figname, Export ?x)],
               viewer_open := (viewer_open w \<or> lavavu e \<and> rank e = 0)\<rparr>"
  have g1: "generate e figname objs props w = Some (?w1, Inr ())"
    by (rule generate_live_result[OF assms(2) assms(1)])
  have cb: "\<And>obj. colourBar (?h1 obj) = colourBar (heap w obj)" by simp
  have l1: "cb_leaves (heap (?w1\<lparr>step := t\<rparr>))" using assms(2) cb_leaves_cong[of ?h1 "heap w"] by simp
  have nv1: "\<not> viewonly (?w1\<lparr>step := t\<rparr>)" using assms(1) by simp
  have A1: "active ?h1 objs = ?A" by (rule active_cong) simp
  have so1: "add_new ?A ?so = ?so" by (rule add_new_absorb) (rule active_subset_add_new)
  have h2: "shown ?A ?so (named ?so (clear_parents (set ?A) ?h1)) = ?h1"
    by (rule heap_idem) (rule active_subset_add_new)
  have "generate e figname objs props (?w1\<lparr>step := t\<rparr>) =
          Some (?w1\<lparr>step := t, db_timeStep := t, written := written ?w1 @ [(figname, Export ?x)]\<rparr>, Inr ())"
    unfolding generate_live_result[OF l1 nv1]
    by (simp add: A1 so1 h2)
  then show ?thesis using g1 by (intro exI[of _ ?w1] exI[of _ ?x]) simp
qed

text \<open>
  The surface 11 rendered twice into the example store, the step moved to 7 in between.
\<close>

theorem live_generate_idempotent_witness:
  "\<not> viewonly ex_world \<and> cb_leaves (heap ex_world) \<and>
   (\<exists>w1 x. generate ex_env ''Figure_2'' [11] [''title'' \<mapsto> VStr ''T''] ex_world = Some (w1, Inr ())
      \<and> written w1 = [(''Figure_2'', Export x)]
      \<and> ex_views x = [[''title'' \<mapsto> VStr ''T'']]
      \<and> length (ex_objects x) = 3
      \<and> generate ex_env ''Figure_2'' [11] [''title'' \<mapsto> VStr ''T''] (w1\<lparr>step := 7\<rparr>) =
           Some (w1\<lparr>step := 7, db_timeStep := 7,
                    written := [(''Figure_2'', Export x), (''Figure_2'', Export x)]\<rparr>, Inr ()))"
proof -
  have h1: "cb_leaves (heap ex_world)" by (simp add: ex_world_def Store_init_def cb_leaves_ex_heap)
  have nv: "\<not> viewonly ex_world" by (simp add: ex_world_def Store_init_def)
  let ?p = "[''title'' \<mapsto> VStr ''T'']"
  obtain w1 x where g: "generate ex_env ''Figure_2'' [11] ?p ex_world = Some (w1, Inr ())"
    and wr: "written w1 = written ex_world @ [(''Figure_2'', Export x)]"
    and g2: "generate ex_env ''Figure_2'' [11] ?p (w1\<lparr>step := 7\<rparr>) =
               Some (w1\<lparr>step := 7, db_timeStep := 7, written := written w1 @ [(''Figure_2'', Export x)]\<rparr>, Inr ())"
    using live_generate_idempotent[OF nv h1, of ex_env "''Figure_2''" "[11]" ?p 7] by blast
  have wr': "written w1 = [(''Figure_2'', Export x)]" using wr by (simp add: ex_world_def Store_init_def)
  have "written w1 = [(''Figure_2'', Export (get_state [10, 11, 12] ?p (heap w1)))]"
    using g unfolding generate_live_result[OF h1 nv]
    by (auto simp: ex_world_def Store_init_def active_ex add_new_def)
  then have x: "x = get_state [10, 11, 12] ?p (heap w1)" using wr' by simp
  show ?thesis using h1 nv g g2 wr' by (simp add: x get_state_def)
qed

section \<open>C8: sending a command to the viewer\<close>

text \<open>
  Claim C8, as amended. When \<^verbatim>\<open>send_command(cmd)\<close> gets to its first request (rank 0 with
  the viewer module, \<^verbatim>\<open>open_viewer\<close> returning) and that request fails, it logs the failure,
  sleeps once for one second and calls itself once more with \<^verbatim>\<open>retry\<close> off; in all, one sleep
  and at most two requests. That second call opens the viewer again, outside the \<^verbatim>\<open>try\<close>:
  when \<^verbatim>\<open>open_viewer\<close> raises there, no second request is made, nothing more is logged and
  the exception reaches the caller. When it returns: if the second request fails too, the
  failure is logged, nothing is raised and nothing more is tried; if it is answered, the
  trace ends with the answered request. The method returns \<open>None\<close> in these two cases, the
  answer is read and dropped.
\<close>

theorem send_command_retries_once:
  assumes "lavavu e" and "rank e = 0"
    and "open_raises e (n_opens tr) = None" and "url_reply e (n_requests tr) = None"
  shows "\<exists>rest r. send_command e cmd True tr =
            (tr @ [OpenViewer, UrlOpen (''http://localhost:9999/command='' @ quote e cmd) None,
                   Print (''Send command '' @ [CHR 0x27] @ cmd @ [CHR 0x27] @ '' failed, no response''),
                   Print ''... retrying in 1s ...'', Sleep 1, OpenViewer] @ rest, r)
          \<and> filter (\<lambda>ev. case ev of Sleep n \<Rightarrow> True | _ \<Rightarrow> False) rest = []
          \<and> n_opens rest = 0 \<and> n_requests rest \<le> 1
          \<and> (case open_raises e (Suc (n_opens tr)) of
                Some x \<Rightarrow> rest = [] \<and> r = Inl x
              | None \<Rightarrow> r = Inr ()
                  \<and> (case url_reply e (Suc (n_requests tr)) of
                        None \<Rightarrow> rest = [UrlOpen (''http://localhost:9999/command='' @ quote e cmd) None,
                                        Print (''Send command '' @ [CHR 0x27] @ cmd @ [CHR 0x27] @ '' failed, no response''),
                                        Print ''... failed, skipping ...'']
                      | Some response \<Rightarrow>
                          rest = [UrlOpen (''http://localhost:9999/command='' @ quote e cmd) (Some response)]))"
proof -
  let ?url = "''http://localhost:9999/command='' @ quote e cmd"
  let ?fail = "Print (''Send command '' @ [CHR 0x27] @ cmd @ [CHR 0x27] @ '' failed, no response'')"
  let ?tr = "tr @ [OpenViewer, UrlOpen ?url None, ?fail, Print ''... retrying in 1s ...'', Sleep 1]"
  have first: "send_command e cmd True tr = send_command e cmd False ?tr"
    using assms by (subst send_command.simps) (simp add: Let_def)
  have o: "n_opens ?tr = Suc (n_opens tr)" and q: "n_requests ?tr = Suc (n_requests tr)"
    by simp_all
  show ?thesis
  proof (cases "open_raises e (Suc (n_opens tr))")
    case (Some x)
    then show ?thesis
      unfolding first send_command_once[OF assms(1,2)] o q by simp
  next
    case None
    then show ?thesis
      unfolding first send_command_once[OF assms(1,2)] o q
      by (cases "url_reply e (Suc (n_requests tr))") simp_all
  qed
qed

text \<open>
  The command \<^verbatim>\<open>quit\<close> sent to a viewer that answers the second request, and to one that
  never answers.
\<close>

theorem send_command_retries_once_witness:
  "lavavu ex_net \<and> rank ex_net = 0 \<and> open_raises ex_net (n_opens []) = None
   \<and> url_reply ex_net (n_requests []) = None
   \<and> send_command ex_net ''quit'' True [] =
       ([OpenViewer, UrlOpen ''http://localhost:9999/command=quit'' None,
         Print (''Send command '' @ [CHR 0x27] @ ''quit'' @ [CHR 0x27] @ '' failed, no response''),
         Print ''... retrying in 1s ...'', Sleep 1,
         OpenViewer, UrlOpen ''http://localhost:9999/command=quit'' (Some ''OK'')], Inr ())
   \<and> send_command ex_net_down ''quit'' True [] =
       ([OpenViewer, UrlOpen ''http://localhost:9999/command=quit'' None,
         Print (''Send command '' @ [CHR 0x27] @ ''quit'' @ [CHR 0x27] @ '' failed, no response''),
         Print ''... retrying in 1s ...'', Sleep 1,
         OpenViewer, UrlOpen ''http://localhost:9999/command=quit'' None,
         Print (''Send command '' @ [CHR 0x27] @ ''quit'' @ [CHR 0x27] @ '' failed, no response''),
         Print ''... failed, skipping ...''], Inr ())"
proof -
  have a: "lavavu ex_net" "rank ex_net = 0" "open_raises ex_net (n_opens []) = None"
    "url_reply ex_net (n_requests []) = None"
    by (simp_all add: ex_net_def)
  have b: "lavavu ex_net_down" "rank ex_net_down = 0" "open_raises ex_net_down (n_opens []) = None"
    "url_reply ex_net_down (n_requests []) = None"
    by (simp_all add: ex_net_down_def ex_net_def)
  show ?thesis
    using send_command_retries_once[OF a, of "''quit''"] send_command_retries_once[OF b, of "''quit''"] a
    by (auto simp: ex_net_def ex_net_down_def)
qed

text \<open>
  The claim as first stated, that no exception reaches the caller once the first request
  has failed, does not hold: the first request fails, and the viewer process cannot be
  started for the retry. The \<^verbatim>\<open>OSError\<close> of \<^verbatim>\<open>open_viewer\<close> leaves \<^verbatim>\<open>send_command\<close>, after one
  sleep and one request.
\<close>

theorem send_command_retry_can_raise:
  "lavavu ex_net_gone \<and> rank ex_net_gone = 0 \<and> open_raises ex_net_gone (n_opens []) = None
   \<and> url_reply ex_net_gone (n_requests []) = None
   \<and> send_command ex_net_gone ''quit'' True [] =
       ([OpenViewer, UrlOpen ''http://localhost:9999/command=quit'' None,
         Print (''Send command '' @ [CHR 0x27] @ ''quit'' @ [CHR 0x27] @ '' failed, no response''),
         Print ''... retrying in 1s ...'', Sleep 1, OpenViewer], Inl OSError)"
proof -
  have a: "lavavu ex_net_gone" "rank ex_net_gone = 0" "open_raises ex_net_gone (n_opens []) = None"
    "url_reply ex_net_gone (n_requests []) = None"
    by (simp_all add: ex_net_gone_def ex_net_down_def ex_net_def)
  have second: "send_command ex_net_gone ''quit'' False
        [OpenViewer, UrlOpen ''http://localhost:9999/command=quit'' None,
         Print (''Send command '' @ [CHR 0x27] @ ''quit'' @ [CHR 0x27] @ '' failed, no response''),
         Print ''... retrying in 1s ...'', Sleep 1]
      = ([OpenViewer, UrlOpen ''http://localhost:9999/command=quit'' None,
         Print (''Send command '' @ [CHR 0x27] @ ''quit'' @ [CHR 0x27] @ '' failed, no response''),
         Print ''... retrying in 1s ...'', Sleep 1, OpenViewer], Inl OSError)"
    by (subst send_command.simps) (simp add: ex_net_gone_def ex_net_down_def ex_net_def)
  have "send_command ex_net_gone ''quit'' True [] = send_command ex_net_gone ''quit'' False
        [OpenViewer, UrlOpen ''http://localhost:9999/command=quit'' None,
         Print (''Send command '' @ [CHR 0x27] @ ''quit'' @ [CHR 0x27] @ '' failed, no response''),
         Print ''... retrying in 1s ...'', Sleep 1]"
    by (subst send_command.simps) (simp add: ex_net_gone_def ex_net_down_def ex_net_def Let_def)
  then show ?thesis using a second by simp
qed

section \<open>C9: ranks other than the root\<close>

text \<open>
  Claim C9, at the input where the code departs from it. A view-only store on rank 1, with
  the viewer module present and a stored document of two figures, renders a figure with no
  local objects: \<^verbatim>\<open>_read_state\<close> returns \<open>None\<close> on that rank and \<^verbatim>\<open>for state in states\<close> raises
  a \<^verbatim>\<open>TypeError\<close>. The store is left as it was.
\<close>

theorem view_generate_raises_off_root:
  "generate (ex_view_env\<lparr>rank := 1\<rparr>) ''Figure_1'' [] Map.empty ex_view_world
     = Some (ex_view_world, Inl TypeError)"
proof -
  have l: "cb_leaves (heap ex_view_world)" by (simp add: ex_view_world_simps cb_leaves_ex_view_heap)
  have r: "\<not> lavavu (ex_view_env\<lparr>rank := 1\<rparr>) \<or> rank (ex_view_env\<lparr>rank := 1\<rparr>) \<noteq> 0" by simp
  have a: "active (heap ex_view_world) [] = []"
    by (simp add: active_def colour_bars_def map_filter_simps)
  show ?thesis
    unfolding generate_view_no_document[OF ex_view_world_simps(1) l r] a
    by (simp add: add_new_def ex_view_world_def Store_init_def)
qed

text \<open>
  The other three operations of the claim: on a rank other than 0, \<^verbatim>\<open>Store.save\<close>,
  \<^verbatim>\<open>Store._read_state\<close> and \<^verbatim>\<open>Figure.send_command\<close> change nothing, raise nothing and return
  \<open>None\<close>.
\<close>

theorem off_root_noops:
  "rank e \<noteq> 0 \<Longrightarrow> rank ne \<noteq> 0 \<Longrightarrow>
   save e filename w = (w, Inr None) \<and> read_state e w = (w, Inr None)
   \<and> send_command ne cmd retry tr = (tr, Inr ())"
  by (simp add: save_def read_state_def send_command.simps)

text \<open>Rank 1 for the store, rank 3 for the figure.\<close>

theorem off_root_noops_witness:
  "rank (ex_view_env\<lparr>rank := 1\<rparr>) \<noteq> 0 \<and> rank (ex_net\<lparr>rank := 3\<rparr>) \<noteq> 0
   \<and> save (ex_view_env\<lparr>rank := 1\<rparr>) (VStr ''vis'') ex_view_world = (ex_view_world, Inr None)
   \<and> read_state (ex_view_env\<lparr>rank := 1\<rparr>) ex_view_world = (ex_view_world, Inr None)
   \<and> send_command (ex_net\<lparr>rank := 3\<rparr>) ''quit'' True [] = ([], Inr ())"
  using off_root_noops[of "ex_view_env\<lparr>rank := 1\<rparr>" "ex_net\<lparr>rank := 3\<rparr>" "VStr ''vis''" ex_view_world "''quit''" True "[]"]
  by (simp add: ex_net_def)

section \<open>C10: merging default properties\<close>

text \<open>
  Claim C10. \<^verbatim>\<open>_updateProperties(newProps, overwrite=False)\<close> keeps an existing key exactly
  when its value is truthy; for a key whose existing value is falsy, and for a key that did
  not exist, the result is whatever \<open>newProps\<close> holds for it (nothing, if \<open>newProps\<close> has no
  such key). The falsy values are \<open>None\<close>, \<open>False\<close>, zero and the empty string.
\<close>

theorem updateProperties_keeps_only_truthy:
  "(\<forall>v. props k = Some v \<and> truthy v \<longrightarrow> updateProperties props newProps False k = Some v)
   \<and> (\<forall>v. props k = Some v \<and> \<not> truthy v \<longrightarrow> updateProperties props newProps False k = newProps k)
   \<and> (props k = None \<longrightarrow> updateProperties props newProps False k = newProps k)
   \<and> (\<not> truthy x \<longleftrightarrow> x \<in> {VNone, VBool False, VInt 0, VFloat 0, VStr []})"
  by (cases x) (auto simp: updateProperties_def dict_update_def truthy_items_def map_add_def split: option.splits)

text \<open>
  Existing \<^verbatim>\<open>lit\<close> false, \<^verbatim>\<open>opacity\<close> 0 and \<^verbatim>\<open>font\<close> small against the defaults \<^verbatim>\<open>lit\<close> true,
  \<^verbatim>\<open>font\<close> fixed and \<^verbatim>\<open>cullface\<close> true: the font is kept, \<^verbatim>\<open>lit\<close> takes the default, and
  \<^verbatim>\<open>opacity\<close>, falsy and without a default, is gone.
\<close>

theorem updateProperties_keeps_only_truthy_witness:
  "updateProperties [''lit'' \<mapsto> VBool False, ''opacity'' \<mapsto> VInt 0, ''font'' \<mapsto> VStr ''small'']
      [''lit'' \<mapsto> VBool True, ''font'' \<mapsto> VStr ''fixed'', ''cullface'' \<mapsto> VBool True] False
   = [''lit'' \<mapsto> VBool True, ''font'' \<mapsto> VStr ''small'', ''cullface'' \<mapsto> VBool True]"
proof (rule ext)
  fix k
  let ?p = "[''lit'' \<mapsto> VBool False, ''opacity'' \<mapsto> VInt 0, ''font'' \<mapsto> VStr ''small'']"
  let ?n = "[''lit'' \<mapsto> VBool True, ''font'' \<mapsto> VStr ''fixed'', ''cullface'' \<mapsto> VBool True]"
  show "updateProperties ?p ?n False k = [''lit'' \<mapsto> VBool True, ''font'' \<mapsto> VStr ''small'', ''cullface'' \<mapsto> VBool True] k"
    using updateProperties_keeps_only_truthy[of ?p k ?n "VBool False"]
    by (cases "?p k") (auto split: if_splits)
qed

section \<open>The store's invariants\<close>

text \<open>
  The two facts about the store that the theorems on names and visibility assume hold of
  the store the constructor makes, and every \<^verbatim>\<open>_generate\<close> call, in either mode and also
  when it raises, keeps them: \<^verbatim>\<open>self._objects\<close> has no duplicates and none of its objects has
  a parent set. The colour bars still carry no colour bar afterwards.
\<close>

theorem generate_keeps_store_invariants:
  assumes "cb_leaves (heap w)" and "distinct (s_objects w)"
    and "\<forall>obj \<in> set (s_objects w). parent (heap w obj) = None"
  shows "distinct (s_objects (Store_init h view))
       \<and> (\<forall>obj \<in> set (s_objects (Store_init h view)). parent (heap (Store_init h view) obj) = None)
       \<and> (\<exists>w' r. generate e figname objs props w = Some (w', r)
             \<and> cb_leaves (heap w') \<and> distinct (s_objects w')
             \<and> (\<forall>obj \<in> set (s_objects w'). parent (heap w' obj) = None))"
proof -
  let ?A = "active (heap w) objs"
  let ?so = "add_new ?A (s_objects w)"
  let ?h = "named ?so (clear_parents (set ?A) (heap w))"
  have d: "distinct ?so" using assms(2) by (rule distinct_add_new)
  have p: "\<forall>obj \<in> set ?so. parent (?h obj) = None"
    using assms(3) by (auto simp: set_add_new clear_parents_def)
  have l: "cb_leaves ?h" using assms(1) cb_leaves_cong[of ?h "heap w"] by simp
  have "\<exists>w' r. generate e figname objs props w = Some (w', r)
             \<and> cb_leaves (heap w') \<and> distinct (s_objects w')
             \<and> (\<forall>obj \<in> set (s_objects w'). parent (heap w' obj) = None)"
  proof (cases "viewonly w")
    case False
    have "cb_leaves (shown ?A ?so ?h)" using l cb_leaves_cong[of "shown ?A ?so ?h" ?h] by simp
    then show ?thesis
      unfolding generate_live_result[OF assms(1) False] using d p by simp
  next
    case True
    let ?w2 = "w\<lparr>s_objects := ?so, heap := ?h\<rparr>"
    let ?r = "generate_view e figname ?A props ?w2"
    have g: "generate e figname objs props w = Some (fst ?r, snd ?r)"
      using True by (simp add: generate_closed[OF assms(1)] Let_def)
    show ?thesis
      unfolding g using d p l
      by (intro exI[of _ "fst ?r"] exI[of _ "snd ?r"]) (simp add: generate_view_heap)
  qed
  then show ?thesis by (simp add: Store_init_def)
qed

theorem generate_keeps_store_invariants_witness:
  "cb_leaves (heap ex_world) \<and> distinct (s_objects ex_world)
   \<and> s_objects ex_world = [10] \<and> parent (heap ex_world 10) = None
   \<and> (\<exists>w' r. generate ex_env ''Figure_2'' [11, 11] Map.empty ex_world = Some (w', r)
         \<and> s_objects w' = [10, 11, 12] \<and> distinct (s_objects w')
         \<and> parent (heap w' 10) = None \<and> parent (heap w' 11) = None \<and> parent (heap w' 12) = None)"
proof -
  have h1: "cb_leaves (heap ex_world)" by (simp add: ex_world_def Store_init_def cb_leaves_ex_heap)
  have h2: "distinct (s_objects ex_world)" by (simp add: ex_world_def)
  have h3: "\<forall>obj \<in> set (s_objects ex_world). parent (heap ex_world obj) = None"
    by (simp add: ex_world_def Store_init_def ex_heap_def blank_def)
  have nv: "\<not> viewonly ex_world" by (simp add: ex_world_def Store_init_def)
  have a: "active ex_heap [11, 11] = [11, 11, 12, 12]"
    by (simp add: active_def colour_bars_def map_filter_simps ex_heap_def blank_def)
  obtain w' r where g: "generate ex_env ''Figure_2'' [11, 11] Map.empty ex_world = Some (w', r)"
    and d: "distinct (s_objects w')" and p: "\<forall>obj \<in> set (s_objects w'). parent (heap w' obj) = None"
    using generate_keeps_store_invariants[OF h1 h2 h3, of ex_heap False ex_env "''Figure_2''" "[11, 11]" Map.empty]
    by blast
  have so: "s_objects w' = [10, 11, 12]"
    using g unfolding generate_live_result[OF h1 nv]
    by (auto simp: ex_world_def Store_init_def a add_new_def)
  show ?thesis using h1 h2 g d p so
    by (auto simp: ex_world_def Store_init_def ex_heap_def blank_def)
qed

end
